theory Spec2Isabelle
  imports Complex_Main
begin

chapter \<open>The notebooks\<close>

section \<open>Errors raised by the notebooks\<close>

text \<open>
  The notebooks contain no \<^verbatim>\<open>try\<close>: an exception raised by a library call or by an
  arithmetic operation ends the cell. Every such exception is a value of \<open>error\<close>, and a
  computation that may raise returns \<open>error + 'a\<close> with \<open>Inl\<close> for the exception.
\<close>

datatype error =
    FileNotFoundError string
  | ParserError string
  | ZeroDivisionError
  | ValueError
  | KeyError
  | SubscriptOutOfBounds
  | NonConformableArrays

section \<open>Floating-point numbers\<close>

text \<open>
  The notebooks compute in binary floating point: a Python \<^verbatim>\<open>float\<close> and an R number
  are doubles, with 53 significant bits, and the matrix of the simulation data holds
  single-precision numbers, with 24. A floating-point number is written as the real it
  denotes, and an operation that rounds as the exact operation followed by \<open>round_to\<close>,
  which returns the nearest number with \<open>p\<close> significant bits, the one with the even
  significand when two are as near. The range of the exponent is not represented: nothing
  overflows to infinity and there are no subnormal numbers. Where a property does not
  depend on the rounding the sections below say so and compute in the reals.
\<close>

definition round_even :: "real \<Rightarrow> int" where
  "round_even y =
     (let f = \<lfloor>y\<rfloor>
      in if y - of_int f < 1 / 2 then f
         else if 1 / 2 < y - of_int f then f + 1
         else if even f then f else f + 1)"

text \<open>The binary exponent of a positive number \<open>x\<close>: the \<open>e\<close> with \<open>2\<^sup>e \<le> x < 2\<^sup>e\<^sup>+\<^sup>1\<close>.\<close>

function exp_up :: "real \<Rightarrow> int" where
  "exp_up x = (if 2 \<le> x then exp_up (x / 2) + 1 else 0)"
  by pat_completeness auto
termination
proof (relation "measure (\<lambda>x. nat \<lfloor>x\<rfloor>)")
  show "wf (measure (\<lambda>x::real. nat \<lfloor>x\<rfloor>))" by simp
next
  fix x :: real assume x: "2 \<le> x"
  have "x / 2 \<le> x - 1" using x by simp
  then have "\<lfloor>x / 2\<rfloor> \<le> \<lfloor>x - 1\<rfloor>" by (rule floor_mono)
  also have "\<dots> = \<lfloor>x\<rfloor> - 1" by simp
  finally have "\<lfloor>x / 2\<rfloor> < \<lfloor>x\<rfloor>" by simp
  moreover have "0 < \<lfloor>x\<rfloor>" using x by simp
  ultimately show "(x / 2, x) \<in> measure (\<lambda>x. nat \<lfloor>x\<rfloor>)" by simp
qed

function exp_down :: "real \<Rightarrow> int" where
  "exp_down x = (if 0 < x \<and> x < 1 then exp_down (2 * x) - 1 else 0)"
  by pat_completeness auto
termination
proof (relation "measure (\<lambda>x. nat \<lceil>1 / x\<rceil>)")
  show "wf (measure (\<lambda>x::real. nat \<lceil>1 / x\<rceil>))" by simp
next
  fix x :: real assume x: "0 < x \<and> x < 1"
  define a where "a = 1 / x"
  from x have a: "1 < a" by (simp add: a_def)
  then have two: "2 \<le> \<lceil>a\<rceil>" by (simp add: le_ceiling_iff)
  define k :: real where "k = of_int \<lceil>a\<rceil>"
  have "a \<le> k" by (simp add: k_def)
  moreover from two have "2 \<le> k" by (simp add: k_def)
  ultimately have "a / 2 \<le> k - 1" by simp
  then have "a / 2 \<le> of_int (\<lceil>a\<rceil> - 1)" by (simp add: k_def)
  then have "\<lceil>a / 2\<rceil> \<le> \<lceil>a\<rceil> - 1" by (simp only: ceiling_le_iff)
  then have less: "\<lceil>a / 2\<rceil> < \<lceil>a\<rceil>" by simp
  have half: "1 / (2 * x) = a / 2" by (simp add: a_def)
  from two have pos: "0 < \<lceil>a\<rceil>" by simp
  from less pos have "nat \<lceil>a / 2\<rceil> < nat \<lceil>a\<rceil>" by simp
  then have "nat \<lceil>1 / (2 * x)\<rceil> < nat \<lceil>1 / x\<rceil>" by (simp only: half a_def)
  then show "(2 * x, x) \<in> measure (\<lambda>x. nat \<lceil>1 / x\<rceil>)" by (simp only: in_measure)
qed

declare exp_up.simps [simp del] exp_down.simps [simp del]

definition exponent :: "real \<Rightarrow> int" where
  "exponent x = (if 1 \<le> x then exp_up x else exp_down x)"

text \<open>
  Rounding to \<open>p\<close> significant bits: the number is scaled by the unit in its last place
  to a significand with \<open>p\<close> bits before the point, which is rounded to an integer.
\<close>

definition round_to :: "nat \<Rightarrow> real \<Rightarrow> real" where
  "round_to p x =
     (if x = 0 then 0
      else sgn x * (of_int (round_even (\<bar>x\<bar> / 2 powi (exponent \<bar>x\<bar> - int p + 1)))
                    * 2 powi (exponent \<bar>x\<bar> - int p + 1)))"

definition double :: "real \<Rightarrow> real" where
  "double = round_to 53"

definition float32 :: "real \<Rightarrow> real" where
  "float32 = round_to 24"

text \<open>The largest relative error of one rounding to double.\<close>

definition unit_roundoff :: real where
  "unit_roundoff = 1 / 2 ^ 53"

section \<open>Sampled power analysis (Python notebook)\<close>

subsection \<open>Tables\<close>

text \<open>
  A float column holds doubles, taken as reals; the only non-number that matters below is
  NaN (a missing value after a left merge, or an empty CSV field), written \<open>None\<close>. A
  comparison with NaN is false.
\<close>

type_synonym pyfloat = "real option"

definition float_lt :: "pyfloat \<Rightarrow> real \<Rightarrow> bool" where
  "float_lt p c = (case p of None \<Rightarrow> False | Some x \<Rightarrow> x < c)"

text \<open>
  The estimator table \<^verbatim>\<open>mem\<close> (columns \<^verbatim>\<open>tx\<close>, \<^verbatim>\<open>gene\<close>, \<^verbatim>\<open>de_pval\<close>), the
  differential-expression table \<^verbatim>\<open>meq\<close> (columns \<^verbatim>\<open>SNP\<close>, \<^verbatim>\<open>gene\<close>, \<^verbatim>\<open>p-value\<close>)
  and the merged table, each as the list of its rows; a prefix tells the \<^verbatim>\<open>gene\<close>,
  \<^verbatim>\<open>SNP\<close> and p-value columns of the three tables apart. Columns the computation
  never reads live in the records' extension part.
\<close>

record mem_row =
  tx :: string
  mem_gene :: string
  de_pval :: pyfloat

record meq_row =
  meq_SNP :: string
  meq_gene :: string
  meq_p_value :: pyfloat

record merged_row =
  SNP :: string
  gene :: string
  merged_de_pval :: pyfloat
  p_value :: pyfloat

text \<open>
  \<^verbatim>\<open>mem.rename(columns={'tx':'SNP'}).merge(meq, on=['SNP', 'gene'], how='left')\<close>:
  every row of the left table, in order, once for each row of the right table with the
  same \<open>(SNP, gene)\<close> key, and once with NaN in the right table's columns when there is
  none.
\<close>

definition key_match :: "mem_row \<Rightarrow> meq_row \<Rightarrow> bool" where
  "key_match m q \<longleftrightarrow> meq_SNP q = tx m \<and> meq_gene q = mem_gene m"

definition merge_row :: "mem_row \<Rightarrow> meq_row list \<Rightarrow> merged_row list" where
  "merge_row m meq =
     (case filter (key_match m) meq of
        [] \<Rightarrow> [\<lparr>SNP = tx m, gene = mem_gene m, merged_de_pval = de_pval m, p_value = None\<rparr>]
      | q # qs \<Rightarrow>
          map (\<lambda>q'. \<lparr>SNP = tx m, gene = mem_gene m, merged_de_pval = de_pval m,
                      p_value = meq_p_value q'\<rparr>) (q # qs))"

definition merge_left :: "mem_row list \<Rightarrow> meq_row list \<Rightarrow> merged_row list" where
  "merge_left mem meq = concat (map (\<lambda>m. merge_row m meq) mem)"

text \<open>The join-cardinality condition of the specification: no estimator row has two matches.\<close>

definition join_cardinality :: "mem_row list \<Rightarrow> meq_row list \<Rightarrow> bool" where
  "join_cardinality mem meq = list_all (\<lambda>m. length (filter (key_match m) meq) \<le> 1) mem"

subsection \<open>Power of one condition\<close>

text \<open>Python's \<^verbatim>\<open>/\<close> on two ints: true division, raising on a zero divisor.\<close>

definition py_truediv :: "nat \<Rightarrow> nat \<Rightarrow> error + real" where
  "py_truediv a b = (if b = 0 then Inl ZeroDivisionError else Inr (real a / real b))"

definition alpha :: real where
  "alpha = 5 / 100"

text \<open>\<^verbatim>\<open>merged[merged['p-value']<0.05].shape[0]/mem.shape[0]\<close>\<close>

definition pseudobulk_power :: "mem_row list \<Rightarrow> meq_row list \<Rightarrow> error + real" where
  "pseudobulk_power mem meq =
     py_truediv (length (filter (\<lambda>r. float_lt (p_value r) alpha) (merge_left mem meq)))
       (length mem)"

text \<open>\<^verbatim>\<open>mem.query('de_pval < 0.05').shape[0]/mem.shape[0]\<close>\<close>

definition memento_power :: "mem_row list \<Rightarrow> error + real" where
  "memento_power mem =
     py_truediv (length (filter (\<lambda>m. float_lt (de_pval m) alpha) mem)) (length mem)"

subsection \<open>Files and paths\<close>

text \<open>
  \<^verbatim>\<open>pd.read_csv\<close> is a library call; what it returns for a path (a table, or the
  exception it raises) is the input of the computation.
\<close>

record csv_files =
  read_meq :: "string \<Rightarrow> error + meq_row list"
  read_mem :: "string \<Rightarrow> error + mem_row list"

text \<open>\<^verbatim>\<open>'{}'.format(n)\<close> for a non-negative int: its decimal digits.\<close>

function str_nat :: "nat \<Rightarrow> string" where
  "str_nat n =
     (if n < 10 then [char_of (48 + n)]
      else str_nat (n div 10) @ [char_of (48 + n mod 10)])"
  by pat_completeness auto
termination
  by (relation "measure id") auto

declare str_nat.simps [simp del]

definition data_path :: string where
  "data_path = ''/data_volume/memento/lupus/''"

definition meq_path :: "string \<Rightarrow> string \<Rightarrow> nat \<Rightarrow> nat \<Rightarrow> string" where
  "meq_path pop ct num_ind resample =
     data_path @ ''mateqtl_output/sampled/'' @ pop @ ''_'' @ ct @ ''_'' @ str_nat num_ind
       @ ''_'' @ str_nat resample @ ''.out''"

definition mem_path :: "string \<Rightarrow> string \<Rightarrow> nat \<Rightarrow> nat \<Rightarrow> string" where
  "mem_path pop ct num_ind resample =
     data_path @ ''memento_1k/'' @ pop @ ''_'' @ ct @ ''_'' @ str_nat num_ind
       @ ''_'' @ str_nat resample @ ''.csv''"

subsection \<open>The loop\<close>

record result_row =
  pop :: string
  num_ind :: nat
  resample :: nat
  ct :: string
  "method" :: string
  power :: real

text \<open>
  A \<^verbatim>\<open>for\<close> loop over a list whose body updates a state and may raise: the first
  exception ends the loop.
\<close>

fun for_loop :: "'a list \<Rightarrow> ('a \<Rightarrow> 's \<Rightarrow> error + 's) \<Rightarrow> 's \<Rightarrow> error + 's" where
  "for_loop [] f s = Inr s"
| "for_loop (x # xs) f s =
     (case f x s of Inl e \<Rightarrow> Inl e | Inr s' \<Rightarrow> for_loop xs f s')"

text \<open>
  The body of the innermost loop: the two reads, the merge, then for each method the
  division that computes its power and the append to \<^verbatim>\<open>result_df\<close>.
\<close>

definition body ::
  "csv_files \<Rightarrow> string \<Rightarrow> nat \<Rightarrow> nat \<Rightarrow> string \<Rightarrow> result_row list \<Rightarrow> error + result_row list"
where
  "body fs p n r c result_df =
     (case read_meq fs (meq_path p c n r) of
        Inl e \<Rightarrow> Inl e
      | Inr meq \<Rightarrow>
     (case read_mem fs (mem_path p c n r) of
        Inl e \<Rightarrow> Inl e
      | Inr mem \<Rightarrow>
     (case pseudobulk_power mem meq of
        Inl e \<Rightarrow> Inl e
      | Inr pb \<Rightarrow>
     (let result_df = result_df
            @ [\<lparr>pop = p, num_ind = n, resample = r, ct = c, method = ''Pseudobulk'', power = pb\<rparr>]
      in
      case memento_power mem of
        Inl e \<Rightarrow> Inl e
      | Inr pm \<Rightarrow>
          Inr (result_df
            @ [\<lparr>pop = p, num_ind = n, resample = r, ct = c, method = ''memento'', power = pm\<rparr>])))))"

text \<open>
  The four nested loops, starting from \<^verbatim>\<open>result_df = []\<close>; the final
  \<^verbatim>\<open>pd.DataFrame(result_df, columns=[...])\<close> names the columns of the rows collected.
\<close>

definition power_curve ::
  "csv_files \<Rightarrow> string list \<Rightarrow> nat list \<Rightarrow> nat \<Rightarrow> string list \<Rightarrow> error + result_row list"
where
  "power_curve fs pops num_inds num_resample cts =
     for_loop pops (\<lambda>p.
       for_loop num_inds (\<lambda>n.
         for_loop [0..<num_resample] (\<lambda>r.
           for_loop cts (\<lambda>c. body fs p n r c)))) []"

text \<open>
  The notebook's own parameters: one population, four individual counts, ten resamples,
  and the cell types of the replication table (\<^verbatim>\<open>cg_cov.drop_duplicates().tolist()\<close>,
  which keeps the first occurrence of each value).
\<close>

fun drop_duplicates :: "'a list \<Rightarrow> 'a list \<Rightarrow> 'a list" where
  "drop_duplicates seen [] = []"
| "drop_duplicates seen (x # xs) =
     (if x \<in> set seen then drop_duplicates seen xs else x # drop_duplicates (x # seen) xs)"

definition num_inds :: "nat list" where
  "num_inds = [50, 60, 70, 80]"

definition num_resample :: nat where
  "num_resample = 10"

definition notebook_power_curve :: "csv_files \<Rightarrow> string list \<Rightarrow> error + result_row list" where
  "notebook_power_curve fs cg_cov =
     power_curve fs [''asian''] num_inds num_resample (drop_duplicates [] cg_cov)"

text \<open>The conditions in the order the nested loops visit them.\<close>

definition conditions ::
  "string list \<Rightarrow> nat list \<Rightarrow> nat \<Rightarrow> string list \<Rightarrow> (string \<times> nat \<times> nat \<times> string) list"
where
  "conditions pops nis nr cts =
     concat (map (\<lambda>p. concat (map (\<lambda>n. concat (map (\<lambda>r. map (\<lambda>c. (p, n, r, c)) cts)
       [0..<nr])) nis)) pops)"

text \<open>
  What one pass through the body appends, and the exception of its two reads, if any: the
  \<^verbatim>\<open>meq\<close> file is read first.
\<close>

definition condition_rows ::
  "csv_files \<Rightarrow> string \<times> nat \<times> nat \<times> string \<Rightarrow> error + result_row list"
where
  "condition_rows fs = (\<lambda>(p, n, r, c). body fs p n r c [])"

definition read_error :: "csv_files \<Rightarrow> string \<times> nat \<times> nat \<times> string \<Rightarrow> error option" where
  "read_error fs =
     (\<lambda>(p, n, r, c).
        case read_meq fs (meq_path p c n r) of
          Inl e \<Rightarrow> Some e
        | Inr meq \<Rightarrow>
            (case read_mem fs (mem_path p c n r) of Inl e \<Rightarrow> Some e | Inr mem \<Rightarrow> None))"

definition reads_succeed :: "csv_files \<Rightarrow> string \<times> nat \<times> nat \<times> string \<Rightarrow> bool" where
  "reads_succeed fs x \<longleftrightarrow> read_error fs x = None"

definition estimator_nonempty :: "csv_files \<Rightarrow> string \<times> nat \<times> nat \<times> string \<Rightarrow> bool" where
  "estimator_nonempty fs =
     (\<lambda>(p, n, r, c).
        case read_mem fs (mem_path p c n r) of Inl e \<Rightarrow> False | Inr mem \<Rightarrow> mem \<noteq> [])"

definition joins_ok :: "csv_files \<Rightarrow> string \<times> nat \<times> nat \<times> string \<Rightarrow> bool" where
  "joins_ok fs =
     (\<lambda>(p, n, r, c).
        case read_meq fs (meq_path p c n r) of
          Inl e \<Rightarrow> True
        | Inr meq \<Rightarrow>
            (case read_mem fs (mem_path p c n r) of
               Inl e \<Rightarrow> True
             | Inr mem \<Rightarrow> join_cardinality mem meq))"

definition label :: "result_row \<Rightarrow> string \<times> nat \<times> nat \<times> string \<times> string" where
  "label row = (pop row, num_ind row, resample row, ct row, method row)"

text \<open>Small tables and files for the examples below.\<close>

definition mem_example :: "mem_row list" where
  "mem_example =
     [\<lparr>tx = ''rs1'', mem_gene = ''G1'', de_pval = Some (1 / 100)\<rparr>,
      \<lparr>tx = ''rs2'', mem_gene = ''G2'', de_pval = Some (1 / 2)\<rparr>]"

definition meq_example :: "meq_row list" where
  "meq_example =
     [\<lparr>meq_SNP = ''rs1'', meq_gene = ''G1'', meq_p_value = Some (1 / 1000)\<rparr>,
      \<lparr>meq_SNP = ''rs3'', meq_gene = ''G2'', meq_p_value = Some (2 / 1000)\<rparr>]"

definition meq_duplicated :: "meq_row list" where
  "meq_duplicated =
     [\<lparr>meq_SNP = ''rs1'', meq_gene = ''G1'', meq_p_value = Some (1 / 1000)\<rparr>,
      \<lparr>meq_SNP = ''rs1'', meq_gene = ''G1'', meq_p_value = Some (2 / 1000)\<rparr>]"

definition files_example :: csv_files where
  "files_example = \<lparr>read_meq = (\<lambda>path. Inr meq_example), read_mem = (\<lambda>path. Inr mem_example)\<rparr>"

definition files_empty_estimator :: csv_files where
  "files_empty_estimator = \<lparr>read_meq = (\<lambda>path. Inr meq_example), read_mem = (\<lambda>path. Inr [])\<rparr>"

definition files_missing :: csv_files where
  "files_missing =
     \<lparr>read_meq = (\<lambda>path. Inr meq_example),
      read_mem = (\<lambda>path. if path = mem_path ''asian'' ''T4'' 50 0
                          then Inl (FileNotFoundError path) else Inr mem_example)\<rparr>"

subsection \<open>Dropping the all-zero columns\<close>

text \<open>
  A dataframe is an object on the heap: \<^verbatim>\<open>drop_zero_col\<close> receives a reference and
  returns one. A frame holds its row labels and its labelled columns, in order, one value
  for each row. A value is a number, NaN, another object (a string) or, in a column of a
  nullable dtype, the missing value \<^verbatim>\<open><NA>\<close>.
\<close>

datatype cell = Num real | NaN | Obj string | NA

record dataframe =
  row_index :: "string list"
  columns :: "(string \<times> cell list) list"

type_synonym ref = nat

text \<open>
  The store is the list of the frames created so far; a reference is a position in it,
  and a new object takes the next position.
\<close>

type_synonym store = "dataframe list"

definition lookup :: "store \<Rightarrow> ref \<Rightarrow> dataframe option" where
  "lookup s r = (if r < length s then Some (s ! r) else None)"

definition alloc :: "store \<Rightarrow> dataframe \<Rightarrow> store \<times> ref" where
  "alloc s df = (s @ [df], length s)"

text \<open>
  \<^verbatim>\<open>x != 0\<close> on one value: NaN and strings differ from zero, and the comparison of
  \<^verbatim>\<open><NA>\<close> is itself \<^verbatim>\<open><NA>\<close>, neither true nor false (\<open>None\<close>).
\<close>

fun ne_zero :: "cell \<Rightarrow> bool option" where
  "ne_zero (Num x) = Some (x \<noteq> 0)"
| "ne_zero NaN = Some True"
| "ne_zero (Obj s) = Some True"
| "ne_zero NA = None"

text \<open>
  \<^verbatim>\<open>(df != 0).any(axis=0)\<close>: for each column, whether one of the comparisons is true.
  \<^verbatim>\<open>any\<close> skips the missing ones (\<^verbatim>\<open>skipna=True\<close> is its default), so a column
  where every comparison is false or missing gives \<^verbatim>\<open>False\<close>.
\<close>

definition any_axis0 :: "(string \<times> bool option list) list \<Rightarrow> bool list" where
  "any_axis0 cols = map (\<lambda>(name, bs). list_ex (\<lambda>b. b = Some True) bs) cols"

definition df_ne_zero :: "dataframe \<Rightarrow> (string \<times> bool option list) list" where
  "df_ne_zero df = map (\<lambda>(name, vs). (name, map ne_zero vs)) (columns df)"

text \<open>Indexing with a boolean mask (\<open>keep\<close>) selects the positions where it is true.\<close>

definition select_mask :: "bool list \<Rightarrow> 'a list \<Rightarrow> 'a list" where
  "select_mask keep xs = map fst (filter snd (zip xs keep))"

text \<open>
  \<^verbatim>\<open>df.loc[:, mask]\<close> builds a new frame with all the rows and the selected columns;
  \<^verbatim>\<open>.copy()\<close> builds another one with the same contents. Each is a new object.
\<close>

definition loc_columns :: "store \<Rightarrow> ref \<Rightarrow> bool list \<Rightarrow> (store \<times> ref) option" where
  "loc_columns s r keep =
     (case lookup s r of
        None \<Rightarrow> None
      | Some df \<Rightarrow> Some (alloc s (df\<lparr>columns := select_mask keep (columns df)\<rparr>)))"

definition copy_frame :: "store \<Rightarrow> ref \<Rightarrow> (store \<times> ref) option" where
  "copy_frame s r = (case lookup s r of None \<Rightarrow> None | Some df \<Rightarrow> Some (alloc s df))"

text \<open>\<^verbatim>\<open>return df.loc[:, (df != 0).any(axis=0)].copy()\<close>\<close>

definition drop_zero_col :: "store \<Rightarrow> ref \<Rightarrow> (store \<times> ref) option" where
  "drop_zero_col s r =
     (case lookup s r of
        None \<Rightarrow> None
      | Some df \<Rightarrow>
          (case loc_columns s r (any_axis0 (df_ne_zero df)) of
             None \<Rightarrow> None
           | Some (s1, r1) \<Rightarrow> copy_frame s1 r1))"

definition frame_example :: dataframe where
  "frame_example =
     \<lparr>row_index = [''s1'', ''s2''],
      columns = [(''a'', [Num 0, Num 3]), (''b'', [Num 0, Num 0]), (''c'', [NaN, Num 0]),
                 (''d'', [NA, Num 2])]\<rparr>"

definition store_example :: store where
  "store_example = [frame_example]"

text \<open>A frame with a nullable integer column, \<^verbatim>\<open>pd.array([None, 0], dtype='Int64')\<close>.\<close>

definition frame_nullable :: dataframe where
  "frame_nullable =
     \<lparr>row_index = [''s1'', ''s2''],
      columns = [(''a'', [Num 0, Num 3]), (''n'', [NA, Num 0])]\<rparr>"

definition store_nullable :: store where
  "store_nullable = [frame_nullable]"

section \<open>Simulation data for the method comparison (Python notebook)\<close>

text \<open>
  An \<^verbatim>\<open>AnnData\<close> object: the matrix \<^verbatim>\<open>X\<close> with one row for each cell and one column
  for each gene, the per-cell annotation \<^verbatim>\<open>obs\<close> (here the columns \<^verbatim>\<open>cell\<close> and
  \<^verbatim>\<open>stim\<close> the notebook reads) and the gene names.
\<close>

record obs_row =
  cell :: string
  stim :: string

record anndata =
  X :: "real list list"
  obs :: "obs_row list"
  var_names :: "string list"

definition n_obs :: "anndata \<Rightarrow> nat" where
  "n_obs a = length (X a)"

definition n_vars :: "anndata \<Rightarrow> nat" where
  "n_vars a = length (var_names a)"

text \<open>The shape invariant of the object: one annotation for each row, one name for each column.\<close>

definition anndata_ok :: "anndata \<Rightarrow> bool" where
  "anndata_ok a \<longleftrightarrow>
     length (obs a) = length (X a) \<and> list_all (\<lambda>row. length row = length (var_names a)) (X a)"

text \<open>Column \<open>j\<close> of the matrix, and all the columns in order.\<close>

definition column :: "real list list \<Rightarrow> nat \<Rightarrow> real list" where
  "column M j = map (\<lambda>row. row ! j) M"

definition matrix_columns :: "anndata \<Rightarrow> real list list" where
  "matrix_columns a = map (column (X a)) [0..<n_vars a]"

text \<open>
  \<^verbatim>\<open>subset.X.mean(axis=0)\<close> on the sparse matrix, which holds single-precision numbers:
  scipy returns \<^verbatim>\<open>(X * (1.0 / X.shape[0])).sum(axis=0)\<close> in the precision of the matrix.
  The reciprocal is a Python \<^verbatim>\<open>float\<close>, a double, and raises on a matrix without
  rows; the product casts it to single precision and rounds each entry; the sum adds the
  entries of a column to a single-precision accumulator in the order of the rows.
\<close>

definition reciprocal32 :: "nat \<Rightarrow> real" where
  "reciprocal32 n = float32 (double (1 / real n))"

definition sum32 :: "real list \<Rightarrow> real" where
  "sum32 xs = foldl (\<lambda>acc x. float32 (acc + x)) 0 xs"

definition mean_axis0 :: "anndata \<Rightarrow> error + real list" where
  "mean_axis0 a =
     (if n_obs a = 0 then Inl ZeroDivisionError
      else Inr (map (\<lambda>j. sum32 (map (\<lambda>row. float32 (row ! j * reciprocal32 (n_obs a))) (X a)))
                  [0..<n_vars a]))"

definition mean_threshold :: real where
  "mean_threshold = 25 / 10"

text \<open>\<^verbatim>\<open>subset[:, mask].copy()\<close>: every row, the columns where the mask is true.\<close>

definition slice_vars :: "anndata \<Rightarrow> bool list \<Rightarrow> anndata" where
  "slice_vars a keep =
     a\<lparr>X := map (select_mask keep) (X a), var_names := select_mask keep (var_names a)\<rparr>"

text \<open>\<^verbatim>\<open>subset = subset[:,(subset.X.mean(axis=0) > 2.5).A1].copy()\<close>\<close>

definition filter_genes :: "anndata \<Rightarrow> error + anndata" where
  "filter_genes a =
     (case mean_axis0 a of
        Inl e \<Rightarrow> Inl e
      | Inr means \<Rightarrow> Inr (slice_vars a (map (\<lambda>m. m > mean_threshold) means)))"

text \<open>
  The mean of a column as a number, for the statement of the filter's property:
  \<open>mean32\<close> as the sparse matrix computes it, \<open>column_mean\<close> in exact arithmetic.
\<close>

definition mean32 :: "real list \<Rightarrow> real" where
  "mean32 c = sum32 (map (\<lambda>x. float32 (x * reciprocal32 (length c))) c)"

definition column_mean :: "real list \<Rightarrow> real" where
  "column_mean c = sum_list c / real (length c)"

text \<open>The rows at the given positions, with their annotation: \<^verbatim>\<open>data[obs_indices].copy()\<close>.\<close>

definition take_rows :: "anndata \<Rightarrow> nat list \<Rightarrow> anndata" where
  "take_rows a idx = a\<lparr>X := map (\<lambda>i. X a ! i) idx, obs := map (\<lambda>i. obs a ! i) idx\<rparr>"

text \<open>
  Modelled from the spec: \<^verbatim>\<open>sc.pp.subsample\<close> is a function of the scanpy library, not
  of this repository; only its calls are in the notebook. With \<^verbatim>\<open>n_obs\<close> given it
  draws \<^verbatim>\<open>n_obs\<close> row indices without replacement
  (\<^verbatim>\<open>np.random.choice(old_n_obs, size=n_obs, replace=False)\<close>: the first \<^verbatim>\<open>n_obs\<close>
  entries of a random permutation of the row indices, raising when there are fewer rows
  than \<^verbatim>\<open>n_obs\<close>) and, with \<^verbatim>\<open>copy=True\<close>, returns a new object holding those rows.
  The permutation drawn is the parameter \<open>perm\<close>.
\<close>

definition subsample :: "anndata \<Rightarrow> nat \<Rightarrow> nat list \<Rightarrow> error + anndata" where
  "subsample a new_n_obs perm =
     (if n_obs a < new_n_obs then Inl ValueError
      else Inr (take_rows a (take new_n_obs perm)))"

text \<open>What the random generator returns for \<open>n\<close> rows: each index below \<open>n\<close> once.\<close>

definition is_permutation :: "nat list \<Rightarrow> nat \<Rightarrow> bool" where
  "is_permutation perm n \<longleftrightarrow> length perm = n \<and> distinct perm \<and> list_all (\<lambda>i. i < n) perm"

text \<open>
  \<^verbatim>\<open>ifn_adata[(ifn_adata.obs.cell == 'CD14+ Monocytes') & (ifn_adata.obs.stim == s)].copy()\<close>:
  the rows whose annotation satisfies both tests.
\<close>

definition monocytes_of :: "anndata \<Rightarrow> string \<Rightarrow> anndata" where
  "monocytes_of a s =
     (let keep = map (\<lambda>ob. cell ob = ''CD14+ Monocytes'' \<and> stim ob = s) (obs a)
      in a\<lparr>X := select_mask keep (X a), obs := select_mask keep (obs a)\<rparr>)"

text \<open>\<^verbatim>\<open>sc.AnnData.concatenate(ctrl_subset, stim_subset)\<close> on two objects with the same genes.\<close>

definition concatenate :: "anndata \<Rightarrow> anndata \<Rightarrow> anndata" where
  "concatenate a b = a\<lparr>X := X a @ X b, obs := obs a @ obs b\<rparr>"

text \<open>
  The cell of the notebook that builds the downsampled dataset: two subsamples of 1000
  cells, concatenated, then the gene filter.
\<close>

definition downsampled_subset :: "anndata \<Rightarrow> nat list \<Rightarrow> nat list \<Rightarrow> error + anndata" where
  "downsampled_subset ifn_adata perm_ctrl perm_stim =
     (case subsample (monocytes_of ifn_adata ''ctrl'') 1000 perm_ctrl of
        Inl e \<Rightarrow> Inl e
      | Inr ctrl_subset \<Rightarrow>
     (case subsample (monocytes_of ifn_adata ''stim'') 1000 perm_stim of
        Inl e \<Rightarrow> Inl e
      | Inr stim_subset \<Rightarrow> filter_genes (concatenate ctrl_subset stim_subset)))"

text \<open>
  The replicates of the subsampled dataset: \<^verbatim>\<open>n_cells = 250\<close>, ten draws from the same
  object, one permutation for each.
\<close>

definition n_cells :: nat where
  "n_cells = 250"

definition subsampled_replicates :: "anndata \<Rightarrow> nat list list \<Rightarrow> error + anndata list" where
  "subsampled_replicates adata perms =
     for_loop perms
       (\<lambda>perm written.
          case subsample adata n_cells perm of
            Inl e \<Rightarrow> Inl e
          | Inr adata_sample \<Rightarrow> Inr (written @ [adata_sample])) []"

definition adata_example :: anndata where
  "adata_example =
     \<lparr>X = [[1, 5, 0, 4], [3, 2, 0, 1], [2, 5, 0, 4]],
      obs = [\<lparr>cell = ''CD14+ Monocytes'', stim = ''ctrl''\<rparr>,
             \<lparr>cell = ''CD14+ Monocytes'', stim = ''stim''\<rparr>,
             \<lparr>cell = ''B cells'', stim = ''ctrl''\<rparr>],
      var_names = [''g1'', ''g2'', ''g3'', ''g4'']\<rparr>"

text \<open>Six cells and three genes; the counts of the first two genes add up to 15.\<close>

definition adata_rounding :: anndata where
  "adata_rounding =
     \<lparr>X = [[0, 0, 3], [0, 0, 3], [0, 1, 3], [4, 6, 3], [7, 6, 3], [4, 2, 3]],
      obs = replicate 6 \<lparr>cell = ''CD14+ Monocytes'', stim = ''ctrl''\<rparr>,
      var_names = [''g1'', ''g2'', ''g3'']\<rparr>"

section \<open>SAVER comparison (R notebook)\<close>

subsection \<open>Numbers and vectors of R\<close>

text \<open>
  An R number is a double or a missing value (\<^verbatim>\<open>NA\<close>, \<^verbatim>\<open>NaN\<close>), written \<open>None\<close>;
  doubles are taken as reals. Arithmetic propagates a missing operand. \<open>0/0\<close> is
  \<^verbatim>\<open>NaN\<close>. A quotient \<open>x/0\<close> with \<open>x \<noteq> 0\<close> would be infinite; both divisions of the
  notebook have a zero numerator whenever their denominator is zero (lemmas
  \<open>colSums_mean_zero\<close> and \<open>r_var_plus_mean_zero\<close> below), so one non-number is enough.
  The square root of a negative number is \<^verbatim>\<open>NaN\<close>.
\<close>

type_synonym rnum = "real option"

definition r_mul :: "rnum \<Rightarrow> rnum \<Rightarrow> rnum" where
  "r_mul a b = (case a of None \<Rightarrow> None | Some x \<Rightarrow> (case b of None \<Rightarrow> None | Some y \<Rightarrow> Some (x * y)))"

definition r_add :: "rnum \<Rightarrow> rnum \<Rightarrow> rnum" where
  "r_add a b = (case a of None \<Rightarrow> None | Some x \<Rightarrow> (case b of None \<Rightarrow> None | Some y \<Rightarrow> Some (x + y)))"

definition r_div :: "rnum \<Rightarrow> rnum \<Rightarrow> rnum" where
  "r_div a b =
     (case a of
        None \<Rightarrow> None
      | Some x \<Rightarrow> (case b of None \<Rightarrow> None | Some y \<Rightarrow> if y = 0 then None else Some (x / y)))"

definition r_sqrt :: "rnum \<Rightarrow> rnum" where
  "r_sqrt a = (case a of None \<Rightarrow> None | Some x \<Rightarrow> if x < 0 then None else Some (sqrt x))"

text \<open>
  Elementwise product of a row of a matrix with a vector of the same length (the rows of
  \<^verbatim>\<open>estimate\<close> and \<^verbatim>\<open>se\<close> have one entry for each cell, as \<^verbatim>\<open>sf\<close> has), and the
  elementwise square.
\<close>

definition vec_mul :: "rnum list \<Rightarrow> rnum list \<Rightarrow> rnum list" where
  "vec_mul xs ys = map (\<lambda>(x, y). r_mul x y) (zip xs ys)"

definition vec_sq :: "rnum list \<Rightarrow> rnum list" where
  "vec_sq xs = map (\<lambda>x. r_mul x x) xs"

text \<open>\<^verbatim>\<open>na.rm = TRUE\<close>: the missing values are dropped before the statistic is taken.\<close>

fun na_rm :: "rnum list \<Rightarrow> real list" where
  "na_rm [] = []"
| "na_rm (None # xs) = na_rm xs"
| "na_rm (Some x # xs) = x # na_rm xs"

text \<open>
  \<^verbatim>\<open>mean\<close> of no value is \<^verbatim>\<open>NaN\<close>; \<^verbatim>\<open>var\<close>, the sample variance with denominator
  \<open>n - 1\<close>, is \<^verbatim>\<open>NA\<close> on fewer than two values.
\<close>

definition r_mean :: "real list \<Rightarrow> rnum" where
  "r_mean xs = (if xs = [] then None else Some (sum_list xs / real (length xs)))"

definition sum_sq_dev :: "real list \<Rightarrow> real" where
  "sum_sq_dev xs = (\<Sum>x\<leftarrow>xs. (x - sum_list xs / real (length xs))\<^sup>2)"

definition r_var :: "real list \<Rightarrow> rnum" where
  "r_var xs = (if length xs < 2 then None else Some (sum_sq_dev xs / real (length xs - 1)))"

text \<open>
  \<^verbatim>\<open>cor\<close> of two columns (Pearson, \<^verbatim>\<open>use = "everything"\<close>): missing as soon as a value
  of either column is missing, or there are fewer than two values, or a standard
  deviation is zero; otherwise the covariance over the product of the standard
  deviations.
\<close>

definition sum_co_dev :: "real list \<Rightarrow> real list \<Rightarrow> real" where
  "sum_co_dev xs ys =
     (\<Sum>(x, y)\<leftarrow>zip xs ys.
        (x - sum_list xs / real (length xs)) * (y - sum_list ys / real (length ys)))"

definition r_cor :: "rnum list \<Rightarrow> rnum list \<Rightarrow> rnum" where
  "r_cor xs ys =
     (if None \<in> set xs \<or> None \<in> set ys \<or> length xs < 2 then None
      else
        (let x = na_rm xs; y = na_rm ys;
             sd_x = sqrt (sum_sq_dev x / real (length x - 1));
             sd_y = sqrt (sum_sq_dev y / real (length y - 1))
         in if sd_x = 0 \<or> sd_y = 0 then None
            else Some (sum_co_dev x y / real (length x - 1) / (sd_x * sd_y))))"

subsection \<open>The size factors\<close>

text \<open>
  The count matrix has one row for each gene and one column for each cell.
  \<^verbatim>\<open>colSums\<close> is the total count of each cell.
\<close>

definition colSums :: "nat list list \<Rightarrow> real list" where
  "colSums m =
     (case m of
        [] \<Rightarrow> []
      | r # rs \<Rightarrow> map (\<lambda>j. (\<Sum>row\<leftarrow>m. real (row ! j))) [0..<length r])"

text \<open>\<^verbatim>\<open>sf <- colSums(dropseq_data)/mean(colSums(dropseq_data))\<close>\<close>

definition sf :: "nat list list \<Rightarrow> rnum list" where
  "sf dropseq_data =
     map (\<lambda>c. r_div (Some c) (r_mean (colSums dropseq_data))) (colSums dropseq_data)"

text \<open>
  The same line in double precision, as R evaluates it. The sum of a column of counts is
  an integer, a double as long as it is below \<open>2\<^sup>5\<^sup>3\<close>; \<^verbatim>\<open>mean\<close> accumulates in
  extended precision and returns a double, taken here as the double nearest to the exact
  mean; \<^verbatim>\<open>/\<close> rounds each quotient.
\<close>

definition colSums_double :: "nat list list \<Rightarrow> real list" where
  "colSums_double m = map double (colSums m)"

definition mean_double :: "real list \<Rightarrow> rnum" where
  "mean_double xs = (if xs = [] then None else Some (double (sum_list xs / real (length xs))))"

definition div_double :: "rnum \<Rightarrow> rnum \<Rightarrow> rnum" where
  "div_double a b = (case r_div a b of None \<Rightarrow> None | Some q \<Rightarrow> Some (double q))"

definition sf_double :: "nat list list \<Rightarrow> rnum list" where
  "sf_double dropseq_data =
     map (\<lambda>c. div_double (Some c) (mean_double (colSums_double dropseq_data)))
       (colSums_double dropseq_data)"

subsection \<open>The adjustment vector and the adjusted correlation\<close>

text \<open>
  The body of the loop over the genes (\<open>i\<close> counts from 0 here, from 1 in R): the
  assignment to \<^verbatim>\<open>adj.vec[i]\<close>, after reading row \<open>i\<close> of \<^verbatim>\<open>estimate\<close> and of
  \<^verbatim>\<open>se\<close>, which fails on a matrix with fewer rows.
\<close>

definition adj_body ::
  "real list list \<Rightarrow> real list list \<Rightarrow> rnum list \<Rightarrow> nat \<Rightarrow> rnum list \<Rightarrow> error + rnum list"
where
  "adj_body estimate se sfv i adj_vec =
     (if i < length estimate \<and> i < length se then
        Inr (adj_vec[i :=
          r_sqrt (r_div (r_var (na_rm (vec_mul (map Some (estimate ! i)) sfv)))
            (r_add (r_var (na_rm (vec_mul (map Some (estimate ! i)) sfv)))
               (r_mean (na_rm (vec_mul (vec_sq (map Some (se ! i))) (vec_sq sfv))))))])
      else Inl SubscriptOutOfBounds)"

text \<open>\<^verbatim>\<open>adj.vec <- rep(0, n); for (i in 1:n) { adj.vec[i] <- ... }\<close>\<close>

definition adj_vec ::
  "nat \<Rightarrow> real list list \<Rightarrow> real list list \<Rightarrow> rnum list \<Rightarrow> error + rnum list"
where
  "adj_vec n estimate se sfv =
     for_loop [0..<n] (adj_body estimate se sfv) (replicate n (Some 0))"

text \<open>\<^verbatim>\<open>outer(adj.vec, adj.vec)\<close>\<close>

definition outer :: "rnum list \<Rightarrow> rnum list \<Rightarrow> rnum list list" where
  "outer xs ys = map (\<lambda>x. map (\<lambda>y. r_mul x y) ys) xs"

text \<open>
  \<^verbatim>\<open>cor(t(sweep(estimate, 2, sf, "*")))\<close>: each row of \<^verbatim>\<open>estimate\<close> times the size
  factors, and the correlation of every two of the scaled rows.
\<close>

definition sweep_rows :: "real list list \<Rightarrow> rnum list \<Rightarrow> rnum list list" where
  "sweep_rows estimate sfv = map (\<lambda>row. vec_mul (map Some row) sfv) estimate"

definition temp_cor :: "real list list \<Rightarrow> rnum list \<Rightarrow> rnum list list" where
  "temp_cor estimate sfv =
     map (\<lambda>x. map (\<lambda>y. r_cor x y) (sweep_rows estimate sfv)) (sweep_rows estimate sfv)"

text \<open>The elementwise product of two matrices, which R refuses when their shapes differ.\<close>

definition conformable :: "rnum list list \<Rightarrow> rnum list list \<Rightarrow> bool" where
  "conformable a b \<longleftrightarrow> length a = length b \<and> list_all (\<lambda>(x, y). length x = length y) (zip a b)"

definition mat_mul_elem :: "rnum list list \<Rightarrow> rnum list list \<Rightarrow> error + rnum list list" where
  "mat_mul_elem a b =
     (if conformable a b then Inr (map (\<lambda>(x, y). vec_mul x y) (zip a b))
      else Inl NonConformableArrays)"

text \<open>
  The cells of the notebook from \<^verbatim>\<open>sf\<close> to \<^verbatim>\<open>saver.cor\<close>, with the number of genes
  the loop is written for as a parameter.
\<close>

definition saver_cor ::
  "nat \<Rightarrow> nat list list \<Rightarrow> real list list \<Rightarrow> real list list \<Rightarrow> error + rnum list list"
where
  "saver_cor n dropseq_data estimate se =
     (case adj_vec n estimate se (sf dropseq_data) of
        Inl e \<Rightarrow> Inl e
      | Inr adj \<Rightarrow>
          mat_mul_elem (temp_cor estimate (sf dropseq_data)) (outer adj adj))"

definition n_genes :: nat where
  "n_genes = 12241"

definition notebook_saver_cor ::
  "nat list list \<Rightarrow> real list list \<Rightarrow> real list list \<Rightarrow> error + rnum list list"
where
  "notebook_saver_cor = saver_cor n_genes"

text \<open>
  The closed form as the specification words it, for one gene, to compare the loop with:
  the square root of the variance of the scaled estimates over that variance plus the
  mean of the scaled squared standard errors.
\<close>

definition shrinkage_factor :: "real list \<Rightarrow> real list \<Rightarrow> rnum list \<Rightarrow> rnum" where
  "shrinkage_factor estimate_i se_i sfv =
     (let v = r_var (na_rm (vec_mul (map Some estimate_i) sfv));
          m = r_mean (na_rm (vec_mul (vec_sq (map Some se_i)) (vec_sq sfv)))
      in r_sqrt (r_div v (r_add v m)))"

text \<open>The shape of the inputs: \<open>n\<close> genes, and one entry for each cell in every row.\<close>

definition saver_shapes ::
  "nat \<Rightarrow> nat list list \<Rightarrow> real list list \<Rightarrow> real list list \<Rightarrow> bool"
where
  "saver_shapes n dropseq_data estimate se \<longleftrightarrow>
     length estimate = n \<and> length se = n
     \<and> list_all (\<lambda>row. length row = length (colSums dropseq_data)) estimate
     \<and> list_all (\<lambda>row. length row = length (colSums dropseq_data)) se"

text \<open>A valid correlation matrix of size \<open>n\<close>: entries in \<open>[-1, 1]\<close>, symmetric.\<close>

definition in_unit_range :: "rnum \<Rightarrow> bool" where
  "in_unit_range a = (case a of None \<Rightarrow> False | Some r \<Rightarrow> - 1 \<le> r \<and> r \<le> 1)"

definition cor_matrix_ok :: "nat \<Rightarrow> rnum list list \<Rightarrow> bool" where
  "cor_matrix_ok n m \<longleftrightarrow>
     list_all (\<lambda>i. list_all (\<lambda>j. in_unit_range (m ! i ! j) \<and> m ! i ! j = m ! j ! i) [0..<n]) [0..<n]"

definition counts_example :: "nat list list" where
  "counts_example = [[1, 1, 1], [1, 1, 1]]"

definition estimate_example :: "real list list" where
  "estimate_example = [[1, 2, 3], [3, 1, 2]]"

definition se_example :: "real list list" where
  "se_example = [[3, 0, 0], [0, 0, 0]]"

chapter \<open>Properties\<close>

section \<open>Floating-point numbers\<close>

text \<open>Rounding a nonnegative number changes it by at most its share \<open>2\<^sup>-\<^sup>p\<close>.\<close>

lemma round_even_error: "\<bar>of_int (round_even y) - y\<bar> \<le> 1 / 2"
proof -
  have "of_int \<lfloor>y\<rfloor> \<le> y" "y < of_int \<lfloor>y\<rfloor> + 1" by linarith+
  then show ?thesis by (auto simp: round_even_def Let_def)
qed

lemma round_even_nonneg: "0 \<le> y \<Longrightarrow> 0 \<le> round_even y"
  by (auto simp: round_even_def Let_def)

lemma two_powi_Suc: "(2::real) powi (e + 1) = 2 powi e * 2"
  by (simp add: power_int_add)

lemma exp_up_bounds: "1 \<le> x \<Longrightarrow> 2 powi exp_up x \<le> x \<and> x < 2 powi (exp_up x + 1)"
proof (induction x rule: exp_up.induct)
  case (1 x)
  show ?case
  proof (cases "2 \<le> x")
    case True
    then have "1 \<le> x / 2" by simp
    define q :: real where "q = 2 powi exp_up (x / 2)"
    from "1.IH" [OF True \<open>1 \<le> x / 2\<close>] have ih: "q \<le> x / 2" "x / 2 < q * 2"
      by (simp_all only: q_def two_powi_Suc)
    from True have e: "exp_up x = exp_up (x / 2) + 1" by (simp add: exp_up.simps [of x])
    have "2 powi exp_up x = q * 2" "2 powi (exp_up x + 1) = q * 2 * 2"
      by (simp_all only: e two_powi_Suc q_def)
    with ih show ?thesis by simp
  next
    case False
    with "1.prems" show ?thesis by (simp add: exp_up.simps [of x])
  qed
qed

lemma exp_down_bounds:
  "0 < x \<Longrightarrow> x < 1 \<Longrightarrow> 2 powi exp_down x \<le> x \<and> x < 2 powi (exp_down x + 1)"
proof (induction x rule: exp_down.induct)
  case (1 x)
  from "1.prems" have c: "0 < x \<and> x < 1" by simp
  show ?case
  proof (cases "2 * x < 1")
    case True
    define q :: real where "q = 2 powi (exp_down (2 * x) - 1)"
    have q2: "2 powi exp_down (2 * x) = q * 2"
      using two_powi_Suc [of "exp_down (2 * x) - 1"] by (simp add: q_def)
    from c have "0 < 2 * x" by simp
    from "1.IH" [OF c this True] have ih: "q * 2 \<le> 2 * x" "2 * x < q * 2 * 2"
      by (simp_all only: q2 two_powi_Suc)
    from c have e: "exp_down x = exp_down (2 * x) - 1" by (simp add: exp_down.simps [of x])
    have "2 powi exp_down x = q" "2 powi (exp_down x + 1) = q * 2"
      using q2 by (simp_all add: e q_def)
    with ih show ?thesis by simp
  next
    case False
    then have "exp_down (2 * x) = 0" by (simp add: exp_down.simps [of "2 * x"])
    with False c show ?thesis by (simp add: exp_down.simps [of x] power_int_minus)
  qed
qed

lemma exponent_bounds:
  assumes "0 < x"
  shows "2 powi exponent x \<le> x \<and> x < 2 powi (exponent x + 1)"
  using assms exp_up_bounds [of x] exp_down_bounds [of x] by (simp add: exponent_def)

lemma round_to_nonneg: "0 \<le> x \<Longrightarrow> 0 \<le> round_to p x"
  by (auto simp: round_to_def round_even_nonneg intro!: mult_nonneg_nonneg)

lemma round_to_error:
  assumes "0 \<le> x"
  shows "\<bar>round_to p x - x\<bar> \<le> x / 2 ^ p"
proof (cases "x = 0")
  case True
  then show ?thesis by (simp add: round_to_def)
next
  case False
  with assms have x: "0 < x" by simp
  define e where "e = exponent x"
  define ulp :: real where "ulp = 2 powi (e - int p + 1)"
  have ulp: "0 < ulp" by (simp add: ulp_def)
  have r: "round_to p x = of_int (round_even (x / ulp)) * ulp"
    using x by (simp add: round_to_def ulp_def e_def)
  have "round_to p x - x = (of_int (round_even (x / ulp)) - x / ulp) * ulp"
    using ulp by (simp add: r field_simps)
  then have "\<bar>round_to p x - x\<bar> = \<bar>of_int (round_even (x / ulp)) - x / ulp\<bar> * ulp"
    using ulp by (simp add: abs_mult)
  also have "\<dots> \<le> 1 / 2 * ulp"
    using ulp round_even_error [of "x / ulp"] by (intro mult_right_mono) simp_all
  also have "1 / 2 * ulp = 2 powi e / 2 ^ p"
    by (simp add: ulp_def power_int_add power_int_diff)
  also have "\<dots> \<le> x / 2 ^ p"
    using exponent_bounds [OF x] by (simp add: e_def divide_right_mono)
  finally show ?thesis .
qed

lemma double_nonneg: "0 \<le> x \<Longrightarrow> 0 \<le> double x"
  by (simp add: double_def round_to_nonneg)

lemma double_error: "0 \<le> x \<Longrightarrow> \<bar>double x - x\<bar> \<le> unit_roundoff * x"
  using round_to_error [of x 53] by (simp add: double_def unit_roundoff_def)

lemma double_zero: "double 0 = 0"
  by (simp add: double_def round_to_def)

lemma float32_nonneg: "0 \<le> x \<Longrightarrow> 0 \<le> float32 x"
  by (simp add: float32_def round_to_nonneg)

lemma round_to_bounds:
  assumes "0 \<le> x"
  shows "(1 - 1 / 2 ^ p) * x \<le> round_to p x \<and> round_to p x \<le> (1 + 1 / 2 ^ p) * x"
proof -
  define e :: real where "e = 1 / 2 ^ p"
  from round_to_error [OF assms, of p] have "\<bar>round_to p x - x\<bar> \<le> e * x"
    by (simp add: e_def)
  then have "(1 - e) * x \<le> round_to p x \<and> round_to p x \<le> (1 + e) * x"
    by (simp add: abs_le_iff algebra_simps)
  then show ?thesis by (simp only: e_def)
qed

lemma float32_bounds:
  assumes "0 \<le> x"
  shows "(1 - 1 / 2 ^ 24) * x \<le> float32 x \<and> float32 x \<le> (1 + 1 / 2 ^ 24) * x"
  unfolding float32_def by (rule round_to_bounds [OF assms])

lemma double_bounds:
  assumes "0 \<le> x"
  shows "(1 - 1 / 2 ^ 24) * x \<le> double x \<and> double x \<le> (1 + 1 / 2 ^ 24) * x"
proof -
  have "(1 - 1 / 2 ^ 53) * x \<le> double x \<and> double x \<le> (1 + 1 / 2 ^ 53) * x"
    unfolding double_def by (rule round_to_bounds [OF assms])
  moreover have "(1 - 1 / 2 ^ 24) * x \<le> (1 - 1 / 2 ^ 53) * x"
    using assms by (intro mult_right_mono) simp_all
  moreover have "(1 + 1 / 2 ^ 53) * x \<le> (1 + 1 / 2 ^ 24) * x"
    using assms by (intro mult_right_mono) simp_all
  ultimately show ?thesis by linarith
qed

lemma sum_list_bounds:
  fixes f g :: "'a \<Rightarrow> real"
  assumes "\<And>x. x \<in> set xs \<Longrightarrow> f x \<le> g x"
  shows "sum_list (map f xs) \<le> sum_list (map g xs)"
  using assms by (induction xs) (auto intro: add_mono)

section \<open>Sampled power analysis\<close>

subsection \<open>Loops\<close>

lemma for_loop_append:
  "for_loop (xs @ ys) f s =
     (case for_loop xs f s of Inl e \<Rightarrow> Inl e | Inr s' \<Rightarrow> for_loop ys f s')"
  by (induction xs arbitrary: s) (auto split: sum.splits)

lemma for_loop_concat:
  "for_loop (concat xss) f = for_loop xss (\<lambda>xs. for_loop xs f)"
proof
  fix s show "for_loop (concat xss) f s = for_loop xss (\<lambda>xs. for_loop xs f) s"
    by (induction xss arbitrary: s) (auto simp: for_loop_append split: sum.splits)
qed

lemma for_loop_map:
  "for_loop (map g xs) f = for_loop xs (\<lambda>x. f (g x))"
proof
  fix s show "for_loop (map g xs) f s = for_loop xs (\<lambda>x. f (g x)) s"
    by (induction xs arbitrary: s) (auto split: sum.splits)
qed

text \<open>The four nested loops are one loop over the conditions.\<close>

lemma power_curve_flat:
  "power_curve fs P N R C =
     for_loop (conditions P N R C) (\<lambda>(p, n, r, c). body fs p n r c) []"
  by (simp add: power_curve_def conditions_def for_loop_concat for_loop_map)

lemma conditions_product:
  "conditions P N R C = List.product P (List.product N (List.product [0..<R] C))"
  by (simp add: conditions_def List.product_concat_map map_concat comp_def)

lemma length_conditions:
  "length (conditions P N R C) = length P * length N * R * length C"
  by (simp add: conditions_product)

lemma body_append:
  "body fs p n r c s =
     (case body fs p n r c [] of Inl e \<Rightarrow> Inl e | Inr rs \<Rightarrow> Inr (s @ rs))"
  by (simp add: body_def Let_def split: sum.splits)

lemma power_curve_rows:
  "power_curve fs P N R C =
     for_loop (conditions P N R C)
       (\<lambda>x s. case condition_rows fs x of Inl e \<Rightarrow> Inl e | Inr rs \<Rightarrow> Inr (s @ rs)) []"
proof -
  have "(\<lambda>(p, n, r, c). body fs p n r c) =
        (\<lambda>x s. case condition_rows fs x of Inl e \<Rightarrow> Inl e | Inr rs \<Rightarrow> Inr (s @ rs))"
  proof (rule ext, rule ext)
    fix x :: "string \<times> nat \<times> nat \<times> string" and s
    obtain p n r c where x: "x = (p, n, r, c)" by (cases x) auto
    show "(case x of (p, n, r, c) \<Rightarrow> body fs p n r c) s =
          (case condition_rows fs x of Inl e \<Rightarrow> Inl e | Inr rs \<Rightarrow> Inr (s @ rs))"
      using body_append [of fs p n r c s] by (simp add: x condition_rows_def)
  qed
  then show ?thesis by (simp add: power_curve_flat)
qed

lemma for_loop_all_ok:
  assumes "\<forall>x\<in>set xs. \<exists>rs. g x = Inr rs"
  shows "for_loop xs (\<lambda>x s. case g x of Inl e \<Rightarrow> Inl e | Inr rs \<Rightarrow> Inr (s @ rs)) s
           = Inr (s @ concat (map (\<lambda>x. projr (g x)) xs))"
  using assms by (induction xs arbitrary: s) (auto split: sum.splits)

lemma for_loop_first_error:
  assumes "\<forall>x\<in>set pre. \<exists>rs. g x = Inr rs" and "g x = Inl e"
  shows "for_loop (pre @ x # post)
           (\<lambda>x s. case g x of Inl e \<Rightarrow> Inl e | Inr rs \<Rightarrow> Inr (s @ rs)) s = Inl e"
  using assms by (induction pre arbitrary: s) (auto split: sum.splits)

lemma for_loop_some_error:
  assumes "x \<in> set xs" and "g x = Inl e"
  shows "\<exists>e'. for_loop xs
           (\<lambda>x s. case g x of Inl e \<Rightarrow> Inl e | Inr rs \<Rightarrow> Inr (s @ rs)) s = Inl e'"
  using assms by (induction xs arbitrary: s) (auto split: sum.splits)

lemma for_loop_Inr:
  assumes "for_loop xs (\<lambda>x s. case g x of Inl e \<Rightarrow> Inl e | Inr rs \<Rightarrow> Inr (s @ rs)) s = Inr s'"
  shows "(\<forall>x\<in>set xs. \<exists>rs. g x = Inr rs) \<and> s' = s @ concat (map (\<lambda>x. projr (g x)) xs)"
  using assms
proof (induction xs arbitrary: s)
  case Nil
  then show ?case by simp
next
  case (Cons x xs)
  from Cons.prems obtain rs where rs: "g x = Inr rs"
    by (cases "g x") auto
  with Cons.prems
  have "for_loop xs (\<lambda>x s. case g x of Inl e \<Rightarrow> Inl e | Inr rs \<Rightarrow> Inr (s @ rs)) (s @ rs) = Inr s'"
    by simp
  from Cons.IH [OF this] rs show ?case by simp
qed

subsection \<open>The merge\<close>

lemma length_merge_row_ge: "1 \<le> length (merge_row m meq)"
  by (simp add: merge_row_def split: list.splits)

lemma merge_row_single:
  assumes "length (filter (key_match m) meq) \<le> 1"
  shows "merge_row m meq =
     [\<lparr>SNP = tx m, gene = mem_gene m, merged_de_pval = de_pval m,
       p_value = (case filter (key_match m) meq of [] \<Rightarrow> None | q # qs \<Rightarrow> meq_p_value q)\<rparr>]"
  using assms by (auto simp: merge_row_def split: list.splits)

lemma length_merge_left:
  "join_cardinality mem meq \<Longrightarrow> length (merge_left mem meq) = length mem"
  by (induction mem) (simp_all add: merge_left_def join_cardinality_def merge_row_single)

lemma length_merge_left_ge: "length mem \<le> length (merge_left mem meq)"
proof (induction mem)
  case Nil
  then show ?case by (simp add: merge_left_def)
next
  case (Cons m mem)
  with length_merge_row_ge [of m meq] show ?case by (simp add: merge_left_def)
qed

subsection \<open>One condition\<close>

lemma py_truediv_range:
  assumes "py_truediv a b = Inr q" and "a \<le> b"
  shows "0 \<le> q \<and> q \<le> 1"
proof -
  from assms(1) have b: "b \<noteq> 0" and q: "q = real a / real b"
    by (auto simp: py_truediv_def split: if_splits)
  from b assms(2) show ?thesis by (simp add: q)
qed

lemma memento_power_range:
  "memento_power mem = Inr q \<Longrightarrow> 0 \<le> q \<and> q \<le> 1"
  unfolding memento_power_def by (erule py_truediv_range) simp

lemma pseudobulk_power_range:
  assumes "pseudobulk_power mem meq = Inr q" and "join_cardinality mem meq"
  shows "0 \<le> q \<and> q \<le> 1"
proof -
  have "length (filter (\<lambda>r. float_lt (p_value r) alpha) (merge_left mem meq))
          \<le> length (merge_left mem meq)"
    by simp
  also have "\<dots> = length mem" using assms(2) by (rule length_merge_left)
  finally show ?thesis
    using assms(1) unfolding pseudobulk_power_def by (rule py_truediv_range [rotated])
qed

lemma condition_rows_Inr:
  assumes "condition_rows fs (p, n, r, c) = Inr rs"
  shows "\<exists>meq mem pb pm.
           read_meq fs (meq_path p c n r) = Inr meq \<and> read_mem fs (mem_path p c n r) = Inr mem \<and>
           pseudobulk_power mem meq = Inr pb \<and> memento_power mem = Inr pm \<and>
           rs = [\<lparr>pop = p, num_ind = n, resample = r, ct = c, method = ''Pseudobulk'', power = pb\<rparr>,
                 \<lparr>pop = p, num_ind = n, resample = r, ct = c, method = ''memento'', power = pm\<rparr>]"
  using assms by (auto simp: condition_rows_def body_def Let_def split: sum.splits)

lemma condition_rows_ok:
  assumes "reads_succeed fs (p, n, r, c)" and "estimator_nonempty fs (p, n, r, c)"
  shows "\<exists>pb pm. condition_rows fs (p, n, r, c) =
           Inr [\<lparr>pop = p, num_ind = n, resample = r, ct = c, method = ''Pseudobulk'', power = pb\<rparr>,
                \<lparr>pop = p, num_ind = n, resample = r, ct = c, method = ''memento'', power = pm\<rparr>]"
  using assms
  by (auto simp: condition_rows_def body_def Let_def reads_succeed_def read_error_def
      estimator_nonempty_def pseudobulk_power_def memento_power_def py_truediv_def
      split: sum.splits)

lemma condition_rows_read_error:
  "read_error fs x = Some e \<Longrightarrow> condition_rows fs x = Inl e"
  by (cases x) (auto simp: condition_rows_def body_def Let_def read_error_def split: sum.splits)

subsection \<open>The power lies in the unit interval\<close>

text \<open>
  Claim C1. Whenever the loop returns its table, the power of every row lies in
  \<open>[0, 1]\<close>: for a \<^verbatim>\<open>memento\<close> row always, and for a \<^verbatim>\<open>Pseudobulk\<close> row when the
  tables read for the conditions satisfy the join-cardinality condition (no estimator row
  matches two rows of the differential-expression table), so that the merged table has
  as many rows as the estimator table, the denominator.
\<close>

theorem power_in_unit_interval:
  assumes run: "power_curve fs P N R C = Inr rows"
    and row: "row \<in> set rows"
    and join: "method row = ''Pseudobulk'' \<longrightarrow> list_all (joins_ok fs) (conditions P N R C)"
  shows "0 \<le> power row \<and> power row \<le> 1"
proof -
  from run have rows: "rows = concat (map (\<lambda>x. projr (condition_rows fs x)) (conditions P N R C))"
    and ok: "\<forall>x\<in>set (conditions P N R C). \<exists>rs. condition_rows fs x = Inr rs"
    using for_loop_Inr [of "conditions P N R C" "condition_rows fs" "[]" rows]
    by (simp_all add: power_curve_rows)
  from row rows obtain x where x: "x \<in> set (conditions P N R C)"
    and mem: "row \<in> set (projr (condition_rows fs x))"
    by auto
  obtain p n r c where xe: "x = (p, n, r, c)" by (cases x) auto
  from ok x obtain rs where rs: "condition_rows fs x = Inr rs" by blast
  from condition_rows_Inr [OF rs [unfolded xe]] obtain meq mem' pb pm where
    rd: "read_meq fs (meq_path p c n r) = Inr meq" "read_mem fs (mem_path p c n r) = Inr mem'"
    and pb: "pseudobulk_power mem' meq = Inr pb" and pm: "memento_power mem' = Inr pm"
    and rse: "rs = [\<lparr>pop = p, num_ind = n, resample = r, ct = c, method = ''Pseudobulk'', power = pb\<rparr>,
                 \<lparr>pop = p, num_ind = n, resample = r, ct = c, method = ''memento'', power = pm\<rparr>]"
    by blast
  from mem rs rse consider
    (pseudobulk) "row = \<lparr>pop = p, num_ind = n, resample = r, ct = c, method = ''Pseudobulk'', power = pb\<rparr>"
    | (memento) "row = \<lparr>pop = p, num_ind = n, resample = r, ct = c, method = ''memento'', power = pm\<rparr>"
    by auto
  then show ?thesis
  proof cases
    case pseudobulk
    with join have "list_all (joins_ok fs) (conditions P N R C)" by simp
    with x have "joins_ok fs x" by (simp add: list_all_iff)
    with rd have "join_cardinality mem' meq" by (simp add: joins_ok_def xe)
    with pb have "0 \<le> pb \<and> pb \<le> 1" by (rule pseudobulk_power_range)
    with pseudobulk show ?thesis by simp
  next
    case memento
    with memento_power_range [OF pm] show ?thesis by simp
  qed
qed

text \<open>
  On the example files, one condition: both powers are \<open>1/2\<close> (one of the two estimator
  rows has a match below the threshold, the other has no match and so a NaN).
\<close>

theorem power_in_unit_interval_witness:
  "power_curve files_example [''asian''] [50] 1 [''T4''] =
     Inr [\<lparr>pop = ''asian'', num_ind = 50, resample = 0, ct = ''T4'', method = ''Pseudobulk'', power = 1 / 2\<rparr>,
          \<lparr>pop = ''asian'', num_ind = 50, resample = 0, ct = ''T4'', method = ''memento'', power = 1 / 2\<rparr>]
   \<and> list_all (joins_ok files_example) (conditions [''asian''] [50] 1 [''T4''])
   \<and> 0 \<le> power \<lparr>pop = ''asian'', num_ind = 50, resample = 0, ct = ''T4'', method = ''Pseudobulk'', power = 1 / 2\<rparr>
   \<and> power \<lparr>pop = ''asian'', num_ind = 50, resample = 0, ct = ''T4'', method = ''Pseudobulk'', power = 1 / 2\<rparr> \<le> 1"
proof -
  let ?r1 = "\<lparr>pop = ''asian'', num_ind = 50, resample = 0, ct = ''T4'', method = ''Pseudobulk'', power = 1 / 2\<rparr>"
  let ?r2 = "\<lparr>pop = ''asian'', num_ind = 50, resample = 0, ct = ''T4'', method = ''memento'', power = 1 / 2\<rparr>"
  have run: "power_curve files_example [''asian''] [50] 1 [''T4''] = Inr [?r1, ?r2]"
    by (simp add: power_curve_def body_def Let_def files_example_def pseudobulk_power_def
        memento_power_def merge_left_def merge_row_def key_match_def float_lt_def alpha_def
        py_truediv_def mem_example_def meq_example_def)
  have join: "list_all (joins_ok files_example) (conditions [''asian''] [50] 1 [''T4''])"
    by (simp add: conditions_def joins_ok_def files_example_def join_cardinality_def
        key_match_def mem_example_def meq_example_def)
  have "0 \<le> power ?r1 \<and> power ?r1 \<le> 1"
  proof (rule power_in_unit_interval [OF run])
    show "?r1 \<in> set [?r1, ?r2]" by simp
    show "method ?r1 = ''Pseudobulk'' \<longrightarrow>
            list_all (joins_ok files_example) (conditions [''asian''] [50] 1 [''T4''])"
      using join by (rule impI)
  qed
  with run join show ?thesis by simp
qed

subsection \<open>Join cardinality\<close>

text \<open>
  Claim C2, as amended. The notebook merges whatever the two files hold; it neither
  checks nor establishes that an estimator row has at most one match. When the tables
  satisfy the join-cardinality condition, the left merge has exactly one row for each
  estimator row, in order, carrying the p-value of the one match (NaN when there is
  none), and so as many rows as the estimator table.
\<close>

theorem merge_one_row_per_estimator_row:
  assumes "join_cardinality mem meq"
  shows "merge_left mem meq =
           map (\<lambda>m. \<lparr>SNP = tx m, gene = mem_gene m, merged_de_pval = de_pval m,
                      p_value = (case filter (key_match m) meq of
                                   [] \<Rightarrow> None | q # qs \<Rightarrow> meq_p_value q)\<rparr>) mem
         \<and> length (merge_left mem meq) = length mem"
proof -
  have "merge_left mem meq =
           map (\<lambda>m. \<lparr>SNP = tx m, gene = mem_gene m, merged_de_pval = de_pval m,
                      p_value = (case filter (key_match m) meq of
                                   [] \<Rightarrow> None | q # qs \<Rightarrow> meq_p_value q)\<rparr>) mem"
    using assms
    by (induction mem) (simp_all add: merge_left_def join_cardinality_def merge_row_single)
  then show ?thesis by simp
qed

theorem merge_one_row_per_estimator_row_witness:
  "join_cardinality mem_example meq_example
   \<and> merge_left mem_example meq_example =
       [\<lparr>SNP = ''rs1'', gene = ''G1'', merged_de_pval = Some (1 / 100), p_value = Some (1 / 1000)\<rparr>,
        \<lparr>SNP = ''rs2'', gene = ''G2'', merged_de_pval = Some (1 / 2), p_value = None\<rparr>]
   \<and> length (merge_left mem_example meq_example) = length mem_example"
proof -
  have join: "join_cardinality mem_example meq_example"
    by (simp add: join_cardinality_def key_match_def mem_example_def meq_example_def)
  from merge_one_row_per_estimator_row [OF join] join show ?thesis
    by (simp add: key_match_def mem_example_def meq_example_def)
qed

text \<open>
  The claim as stated fails on a differential-expression table that lists a
  \<open>(SNP, gene)\<close> pair twice: the estimator row of that pair has two matches, and the
  merged table has three rows for two estimator rows.
\<close>

theorem merge_cardinality_counterexample:
  "\<not> join_cardinality mem_example meq_duplicated
   \<and> length (merge_left mem_example meq_duplicated) = 3
   \<and> length mem_example = 2"
  by (simp add: join_cardinality_def merge_left_def merge_row_def key_match_def
      mem_example_def meq_duplicated_def)

text \<open>The condition is necessary as well: the row counts agree only under it.\<close>

lemma length_merge_row:
  "length (merge_row m meq) = max 1 (length (filter (key_match m) meq))"
  by (simp add: merge_row_def split: list.splits)

lemma length_merge_left_iff:
  "length (merge_left mem meq) = length mem \<longleftrightarrow> join_cardinality mem meq"
proof
  assume "join_cardinality mem meq"
  then show "length (merge_left mem meq) = length mem" by (rule length_merge_left)
next
  assume "length (merge_left mem meq) = length mem"
  then show "join_cardinality mem meq"
  proof (induction mem)
    case Nil
    then show ?case by (simp add: join_cardinality_def)
  next
    case (Cons m mem)
    have ge: "length mem \<le> length (merge_left mem meq)" by (rule length_merge_left_ge)
    from Cons.prems have sum: "length (merge_row m meq) + length (merge_left mem meq) = Suc (length mem)"
      by (simp add: merge_left_def)
    with ge length_merge_row_ge [of m meq]
    have one: "length (merge_row m meq) = 1" and rest: "length (merge_left mem meq) = length mem"
      by simp_all
    from one have "length (filter (key_match m) meq) \<le> 1"
      by (simp add: length_merge_row max_def split: if_splits)
    with Cons.IH [OF rest] show ?case by (simp add: join_cardinality_def)
  qed
qed

subsection \<open>One row for each condition and method\<close>

lemma length_concat_map_const:
  "(\<forall>x\<in>set xs. length (f x) = k) \<Longrightarrow> length (concat (map f xs)) = k * length xs"
  by (induction xs) auto

lemma label_condition_rows:
  assumes "reads_succeed fs x" and "estimator_nonempty fs x"
  shows "\<exists>rs. condition_rows fs x = Inr rs \<and>
           map label rs = (case x of (p, n, r, c) \<Rightarrow> [(p, n, r, c, ''Pseudobulk''), (p, n, r, c, ''memento'')])"
proof -
  obtain p n r c where x: "x = (p, n, r, c)" by (cases x) auto
  from condition_rows_ok [OF assms [unfolded x]] show ?thesis
    by (auto simp: x label_def)
qed

text \<open>
  Claim C7, as amended. When the two reads of every condition succeed and every estimator
  table read has at least one row, the loop returns a table with exactly two rows for each
  element of the product of the populations, the individual counts, the resample indices
  and the cell types, in the order of the loops: the \<^verbatim>\<open>Pseudobulk\<close> row, then the
  \<^verbatim>\<open>memento\<close> row, each labelled with its condition.
\<close>

theorem power_curve_table:
  assumes ok: "\<forall>x\<in>set (List.product P (List.product N (List.product [0..<R] C))).
                 reads_succeed fs x \<and> estimator_nonempty fs x"
  shows "\<exists>rows. power_curve fs P N R C = Inr rows
           \<and> length rows = 2 * length P * length N * R * length C
           \<and> map label rows =
               concat (map (\<lambda>(p, n, r, c). [(p, n, r, c, ''Pseudobulk''), (p, n, r, c, ''memento'')])
                 (List.product P (List.product N (List.product [0..<R] C))))"
proof -
  let ?conds = "conditions P N R C"
  let ?rows = "concat (map (\<lambda>x. projr (condition_rows fs x)) ?conds)"
  let ?two = "\<lambda>(p, n, r, c). [(p, n, r, c, ''Pseudobulk''), (p, n, r, c, ''memento'')]"
  have each: "\<forall>x\<in>set ?conds. \<exists>rs. condition_rows fs x = Inr rs \<and> map label rs = ?two x"
  proof
    fix x assume "x \<in> set ?conds"
    with ok have "reads_succeed fs x \<and> estimator_nonempty fs x"
      unfolding conditions_product by blast
    then show "\<exists>rs. condition_rows fs x = Inr rs \<and> map label rs = ?two x"
      using label_condition_rows by blast
  qed
  then have "\<forall>x\<in>set ?conds. \<exists>rs. condition_rows fs x = Inr rs" by blast
  then have run: "power_curve fs P N R C = Inr ?rows"
    using for_loop_all_ok [of ?conds "condition_rows fs" "[]"] by (simp add: power_curve_rows)
  have lab: "\<forall>x\<in>set ?conds. map label (projr (condition_rows fs x)) = ?two x"
    using each by fastforce
  have labels: "map label ?rows = concat (map ?two ?conds)"
    using lab by (simp add: map_concat comp_def cong: map_cong)
  have "length (map label ?rows) = 2 * length ?conds"
    unfolding labels by (rule length_concat_map_const) auto
  then have len: "length ?rows = 2 * length P * length N * R * length C"
    by (simp add: length_conditions)
  from run len labels show ?thesis by (simp add: conditions_product)
qed

theorem power_curve_table_witness:
  "list_all (\<lambda>x. reads_succeed files_example x \<and> estimator_nonempty files_example x)
     (List.product [''asian''] (List.product [50, 60] (List.product [0..<1] [''T4'', ''B''])))
   \<and> (\<exists>rows. power_curve files_example [''asian''] [50, 60] 1 [''T4'', ''B''] = Inr rows
        \<and> length rows = 8
        \<and> map label rows =
            [(''asian'', 50, 0, ''T4'', ''Pseudobulk''), (''asian'', 50, 0, ''T4'', ''memento''),
             (''asian'', 50, 0, ''B'', ''Pseudobulk''), (''asian'', 50, 0, ''B'', ''memento''),
             (''asian'', 60, 0, ''T4'', ''Pseudobulk''), (''asian'', 60, 0, ''T4'', ''memento''),
             (''asian'', 60, 0, ''B'', ''Pseudobulk''), (''asian'', 60, 0, ''B'', ''memento'')])"
proof -
  have ok: "\<forall>x\<in>set (List.product [''asian''] (List.product [50, 60] (List.product [0..<1] [''T4'', ''B'']))).
              reads_succeed files_example x \<and> estimator_nonempty files_example x"
    by (simp add: reads_succeed_def read_error_def estimator_nonempty_def files_example_def
        mem_example_def)
  from power_curve_table [OF ok] ok show ?thesis
    by (simp add: list_all_iff)
qed

text \<open>
  Successful reads are not enough: an estimator file with a header and no rows reads
  as an empty table, both powers divide by its row count, and the first division raises.
\<close>

theorem power_curve_table_counterexample:
  "list_all (reads_succeed files_empty_estimator)
     (List.product [''asian''] (List.product [50] (List.product [0..<1] [''T4''])))
   \<and> power_curve files_empty_estimator [''asian''] [50] 1 [''T4''] = Inl ZeroDivisionError"
  by (simp add: reads_succeed_def read_error_def files_empty_estimator_def power_curve_def
      body_def Let_def pseudobulk_power_def merge_left_def py_truediv_def)

text \<open>
  Whenever the loop returns, the table has two rows for each condition; with the
  notebook's parameters, 80 for each distinct cell type.
\<close>

lemma power_curve_length:
  assumes "power_curve fs P N R C = Inr rows"
  shows "length rows = 2 * length P * length N * R * length C"
proof -
  from assms have rows: "rows = concat (map (\<lambda>x. projr (condition_rows fs x)) (conditions P N R C))"
    and ok: "\<forall>x\<in>set (conditions P N R C). \<exists>rs. condition_rows fs x = Inr rs"
    using for_loop_Inr [of "conditions P N R C" "condition_rows fs" "[]" rows]
    by (simp_all add: power_curve_rows)
  have "length (projr (condition_rows fs x)) = 2" if "x \<in> set (conditions P N R C)" for x
  proof -
    obtain p n r c where x: "x = (p, n, r, c)" by (cases x) auto
    from ok that obtain rs where rs: "condition_rows fs x = Inr rs" by blast
    from condition_rows_Inr [OF rs [unfolded x]] rs show ?thesis by auto
  qed
  then have "length rows = 2 * length (conditions P N R C)"
    unfolding rows by (intro length_concat_map_const) blast
  then show ?thesis by (simp add: length_conditions)
qed

lemma set_drop_duplicates: "set (drop_duplicates seen xs) = set xs - set seen"
  by (induction seen xs rule: drop_duplicates.induct) auto

lemma distinct_drop_duplicates: "distinct (drop_duplicates seen xs)"
  by (induction seen xs rule: drop_duplicates.induct) (auto simp: set_drop_duplicates)

lemma notebook_power_curve_length:
  assumes "notebook_power_curve fs cg_cov = Inr rows"
  shows "length rows = 80 * card (set cg_cov)"
proof -
  have "length (drop_duplicates [] cg_cov) = card (set cg_cov)"
    using distinct_card [OF distinct_drop_duplicates, of "[]" cg_cov]
    by (simp add: set_drop_duplicates)
  with power_curve_length [OF assms [unfolded notebook_power_curve_def]]
  show ?thesis by (simp add: num_inds_def num_resample_def)
qed

subsection \<open>No error handling\<close>

text \<open>
  Claim C8. When a read of one of the conditions fails, the loop returns no table: it
  ends with an exception. The exception is that of the failing read as soon as the
  conditions before it completed, whatever the files of the conditions after it hold:
  nothing is retried, skipped or kept.
\<close>

theorem read_failure_halts:
  assumes x: "x \<in> set (conditions P N R C)"
    and fail: "read_error fs x = Some e"
  shows "(\<exists>e'. power_curve fs P N R C = Inl e')
       \<and> (\<forall>pre post. conditions P N R C = pre @ x # post
             \<and> (\<forall>y\<in>set pre. \<exists>rs. condition_rows fs y = Inr rs)
            \<longrightarrow> power_curve fs P N R C = Inl e)"
proof -
  from fail have err: "condition_rows fs x = Inl e" by (rule condition_rows_read_error)
  have "\<exists>e'. power_curve fs P N R C = Inl e'"
    unfolding power_curve_rows using x err by (rule for_loop_some_error)
  moreover have "power_curve fs P N R C = Inl e"
    if "conditions P N R C = pre @ x # post"
      and "\<forall>y\<in>set pre. \<exists>rs. condition_rows fs y = Inr rs" for pre post
    unfolding power_curve_rows that(1) using that(2) err by (rule for_loop_first_error)
  ultimately show ?thesis by blast
qed

theorem read_failure_halts_witness:
  "(''asian'', 50, 0, ''T4'') \<in> set (conditions [''asian''] [50] 1 [''B'', ''T4'', ''NK''])
   \<and> read_error files_missing (''asian'', 50, 0, ''T4'')
       = Some (FileNotFoundError (mem_path ''asian'' ''T4'' 50 0))
   \<and> conditions [''asian''] [50] 1 [''B'', ''T4'', ''NK'']
       = [(''asian'', 50, 0, ''B'')] @ (''asian'', 50, 0, ''T4'') # [(''asian'', 50, 0, ''NK'')]
   \<and> power_curve files_missing [''asian''] [50] 1 [''B'', ''T4'', ''NK'']
       = Inl (FileNotFoundError (mem_path ''asian'' ''T4'' 50 0))"
proof -
  let ?x = "(''asian'', 50 :: nat, 0 :: nat, ''T4'')"
  have conds: "conditions [''asian''] [50] 1 [''B'', ''T4'', ''NK'']
       = [(''asian'', 50, 0, ''B'')] @ ?x # [(''asian'', 50, 0, ''NK'')]"
    by (simp add: conditions_def)
  have x: "?x \<in> set (conditions [''asian''] [50] 1 [''B'', ''T4'', ''NK''])"
    unfolding conds by simp
  have fail: "read_error files_missing ?x = Some (FileNotFoundError (mem_path ''asian'' ''T4'' 50 0))"
    by (simp add: read_error_def files_missing_def)
  have "mem_path ''asian'' ''B'' 50 0 \<noteq> mem_path ''asian'' ''T4'' 50 0"
    by (simp add: mem_path_def)
  then have pre: "\<forall>y\<in>set [(''asian'', 50 :: nat, 0 :: nat, ''B'')]. \<exists>rs. condition_rows files_missing y = Inr rs"
    by (simp add: condition_rows_def body_def Let_def files_missing_def pseudobulk_power_def
        memento_power_def py_truediv_def mem_example_def)
  from read_failure_halts [OF x fail] conds pre
  have "power_curve files_missing [''asian''] [50] 1 [''B'', ''T4'', ''NK'']
       = Inl (FileNotFoundError (mem_path ''asian'' ''T4'' 50 0))"
    by blast
  with x fail conds show ?thesis by blast
qed

subsection \<open>Dropping the all-zero columns\<close>

lemma select_mask_Nil [simp]: "select_mask keep [] = []" "select_mask [] xs = []"
  by (simp_all add: select_mask_def)

lemma select_mask_Cons [simp]:
  "select_mask (k # keep) (x # xs) = (if k then x # select_mask keep xs else select_mask keep xs)"
  by (simp add: select_mask_def)

lemma select_mask_map: "select_mask (map P xs) xs = filter P xs"
  by (induction xs) simp_all

lemma select_mask_map2: "select_mask (map (\<lambda>x. P (f x)) xs) (map f xs) = filter P (map f xs)"
  by (induction xs) simp_all

text \<open>The comparison with zero is true on the values that are neither zero nor missing.\<close>

lemma ne_zero_True:
  "ne_zero v = Some True \<longleftrightarrow> v \<noteq> Num 0 \<and> v \<noteq> NA"
  "Some True = ne_zero v \<longleftrightarrow> v \<noteq> Num 0 \<and> v \<noteq> NA"
  by (cases v, simp_all)+

lemma any_axis0_ne_zero:
  "any_axis0 (df_ne_zero df)
     = map (\<lambda>(name, vs). list_ex (\<lambda>v. v \<noteq> Num 0 \<and> v \<noteq> NA) vs) (columns df)"
  by (simp add: any_axis0_def df_ne_zero_def list_ex_iff split_def image_iff ne_zero_True)

text \<open>
  Claim C9, as amended. On a frame of the store, \<^verbatim>\<open>drop_zero_col\<close> returns a reference
  to a new object, different from its argument, that holds the rows of the frame and
  exactly its columns with a value that is neither zero nor the missing value
  \<^verbatim>\<open><NA>\<close>, in their order and unchanged; the frame it was given, and every other
  object of the store, is as before.
\<close>

theorem drop_zero_col_copy:
  assumes df: "lookup s r = Some df"
  shows "\<exists>s' r'. drop_zero_col s r = Some (s', r')
           \<and> r' \<noteq> r \<and> lookup s r' = None
           \<and> lookup s' r' =
               Some \<lparr>row_index = row_index df,
                     columns = filter (\<lambda>(name, vs). list_ex (\<lambda>v. v \<noteq> Num 0 \<and> v \<noteq> NA) vs)
                                 (columns df)\<rparr>
           \<and> (\<forall>q. lookup s q \<noteq> None \<longrightarrow> lookup s' q = lookup s q)"
proof -
  let ?kept = "filter (\<lambda>(name, vs). list_ex (\<lambda>v. v \<noteq> Num 0 \<and> v \<noteq> NA) vs) (columns df)"
  let ?new = "df\<lparr>columns := ?kept\<rparr>"
  let ?s' = "s @ [?new] @ [?new]" and ?r' = "Suc (length s)"
  from df have r: "r < length s" and sr: "s ! r = df"
    by (simp_all add: lookup_def split: if_splits)
  have sel: "select_mask (any_axis0 (df_ne_zero df)) (columns df) = ?kept"
    by (simp add: any_axis0_ne_zero select_mask_map)
  have run: "drop_zero_col s r = Some (?s', ?r')"
    by (simp add: drop_zero_col_def loc_columns_def copy_frame_def alloc_def lookup_def sr sel r
        nth_append)
  have new: "lookup ?s' ?r' = Some \<lparr>row_index = row_index df, columns = ?kept\<rparr>"
    by (simp add: lookup_def nth_append)
  have old: "lookup ?s' q = lookup s q" if "lookup s q \<noteq> None" for q
    using that by (simp add: lookup_def nth_append split: if_splits)
  have none: "lookup s ?r' = None" by (simp add: lookup_def)
  from r have "?r' \<noteq> r" by simp
  with run new old none show ?thesis by blast
qed

theorem drop_zero_col_copy_witness:
  "lookup store_example 0 = Some frame_example
   \<and> (\<exists>s'. drop_zero_col store_example 0 = Some (s', 2)
        \<and> lookup s' 2 =
            Some \<lparr>row_index = [''s1'', ''s2''],
                  columns = [(''a'', [Num 0, Num 3]), (''c'', [NaN, Num 0]),
                             (''d'', [NA, Num 2])]\<rparr>
        \<and> lookup s' 0 = Some frame_example)"
proof -
  have df: "lookup store_example 0 = Some frame_example"
    by (simp add: store_example_def lookup_def)
  from drop_zero_col_copy [OF df] obtain s' r' where
    run: "drop_zero_col store_example 0 = Some (s', r')"
    and new: "lookup s' r' = Some \<lparr>row_index = row_index frame_example,
         columns = filter (\<lambda>(name, vs). list_ex (\<lambda>v. v \<noteq> Num 0 \<and> v \<noteq> NA) vs)
                     (columns frame_example)\<rparr>"
    and old: "\<forall>q. lookup store_example q \<noteq> None \<longrightarrow> lookup s' q = lookup store_example q"
    by blast
  from run have r': "r' = 2"
    by (simp add: drop_zero_col_def loc_columns_def copy_frame_def alloc_def lookup_def
        store_example_def)
  from old df have "lookup s' 0 = Some frame_example" by simp
  with run new r' df show ?thesis
    by (simp add: frame_example_def)
qed

text \<open>
  Claim C9 as stated fails on a column of a nullable dtype. The column \<open>n\<close> of the frame
  below holds \<^verbatim>\<open><NA>\<close> and 0: it has an entry other than zero, so it is not an all-zero
  column, and \<^verbatim>\<open>drop_zero_col\<close> removes it.
\<close>

theorem drop_zero_col_counterexample:
  "lookup store_nullable 0 = Some frame_nullable
   \<and> list_ex (\<lambda>v. v \<noteq> Num 0) [NA, Num 0]
   \<and> filter (\<lambda>(name, vs). list_ex (\<lambda>v. v \<noteq> Num 0) vs) (columns frame_nullable)
       = [(''a'', [Num 0, Num 3]), (''n'', [NA, Num 0])]
   \<and> (\<exists>s'. drop_zero_col store_nullable 0 = Some (s', 2)
        \<and> lookup s' 2 =
            Some \<lparr>row_index = [''s1'', ''s2''],
                  columns = [(''a'', [Num 0, Num 3])]\<rparr>)"
  by (simp add: drop_zero_col_def loc_columns_def copy_frame_def alloc_def lookup_def
      store_nullable_def frame_nullable_def any_axis0_def df_ne_zero_def)

section \<open>Simulation data for the method comparison\<close>

subsection \<open>The gene filter\<close>

lemma length_select_mask:
  "length xs = length keep \<Longrightarrow> length (select_mask keep xs) = length (filter (\<lambda>b. b) keep)"
  by (induction xs keep rule: list_induct2) simp_all

lemma select_mask_indices:
  "length xs = length keep \<Longrightarrow>
     select_mask keep xs = map (\<lambda>j. xs ! j) (filter (\<lambda>j. keep ! j) [0..<length keep])"
proof (induction xs keep rule: list_induct2)
  case Nil
  then show ?case by simp
next
  case (Cons x xs k keep)
  have upt: "[0..<Suc (length keep)] = 0 # map Suc [0..<length keep]"
    by (simp add: upt_conv_Cons map_Suc_upt del: upt_Suc)
  show ?case
    unfolding length_Cons upt using Cons.IH
    by (simp add: filter_map comp_def)
qed

lemma select_mask_zip:
  "select_mask (map P ys) xs = map fst (filter (\<lambda>(x, y). P y) (zip xs ys))"
proof (induction xs arbitrary: ys)
  case Nil
  then show ?case by simp
next
  case (Cons x xs)
  then show ?case by (cases ys) simp_all
qed

lemma map_nth_index: "map (\<lambda>k. f (xs ! k)) [0..<length xs] = map f xs"
proof -
  have "map f xs = map f (map (\<lambda>k. xs ! k) [0..<length xs])"
    by (simp only: map_nth)
  then show ?thesis by (simp add: comp_def)
qed

text \<open>The means the filter compares are the single-precision means of the columns.\<close>

lemma mean_axis0_mean32:
  assumes "0 < n_obs a"
  shows "mean_axis0 a = Inr (map (\<lambda>j. mean32 (column (X a) j)) [0..<n_vars a])"
  using assms by (simp add: mean_axis0_def mean32_def column_def n_obs_def comp_def)

lemma matrix_columns_slice:
  assumes ok: "anndata_ok a" and len: "length keep = n_vars a"
  shows "matrix_columns (slice_vars a keep)
           = map (column (X a)) (filter (\<lambda>j. keep ! j) [0..<n_vars a])"
proof -
  let ?idx = "filter (\<lambda>j. keep ! j) [0..<n_vars a]"
  from ok have rows: "\<And>row. row \<in> set (X a) \<Longrightarrow> length row = length keep"
    by (simp add: anndata_ok_def list_all_iff len n_vars_def)
  have nv: "n_vars (slice_vars a keep) = length ?idx"
    using select_mask_indices [of "var_names a" keep] len
    by (simp add: slice_vars_def n_vars_def)
  have col: "column (X (slice_vars a keep)) k = column (X a) (?idx ! k)" if "k < length ?idx" for k
  proof -
    have "select_mask keep row ! k = row ! (?idx ! k)" if "row \<in> set (X a)" for row
      using select_mask_indices [of row keep] rows [OF that] \<open>k < length ?idx\<close> len
      by simp
    then show ?thesis by (simp add: column_def slice_vars_def)
  qed
  have "matrix_columns (slice_vars a keep) = map (\<lambda>k. column (X a) (?idx ! k)) [0..<length ?idx]"
    unfolding matrix_columns_def nv using col by simp
  then show ?thesis by (simp add: map_nth_index)
qed

lemma slice_vars_ok:
  assumes ok: "anndata_ok a" and len: "length keep = n_vars a"
  shows "anndata_ok (slice_vars a keep)"
proof -
  from ok have rows: "\<And>row. row \<in> set (X a) \<Longrightarrow> length row = length keep"
    by (simp add: anndata_ok_def list_all_iff len n_vars_def)
  have "length (select_mask keep row) = length (select_mask keep (var_names a))"
    if "row \<in> set (X a)" for row
    using length_select_mask [OF rows [OF that]] length_select_mask [of "var_names a" keep] len
    by (simp add: n_vars_def)
  with ok show ?thesis
    by (simp add: anndata_ok_def slice_vars_def list_all_iff)
qed

text \<open>
  Claim C5, as amended. The gene filter returns a matrix as soon as there is a row, and the
  matrix it returns has the same rows (cells and their annotation) and, as its columns,
  exactly the columns of the input whose mean, computed in single precision as the
  sparse matrix computes it, is above 2.5, in their order and under their names: each
  kept column has a computed mean above the threshold, and each column with a computed
  mean above the threshold is kept.
\<close>

theorem filter_genes_mean_threshold:
  assumes ok: "anndata_ok a"
  shows "(0 < n_obs a \<longrightarrow> (\<exists>b. filter_genes a = Inr b))
       \<and> (\<forall>b. filter_genes a = Inr b \<longrightarrow>
            matrix_columns b = filter (\<lambda>c. mean32 c > mean_threshold) (matrix_columns a)
          \<and> var_names b
              = map fst (filter (\<lambda>(name, c). mean32 c > mean_threshold)
                           (zip (var_names a) (matrix_columns a)))
          \<and> anndata_ok b \<and> n_obs b = n_obs a \<and> obs b = obs a)"
proof (intro conjI allI impI)
  assume "0 < n_obs a"
  then show "\<exists>b. filter_genes a = Inr b"
    by (simp add: filter_genes_def mean_axis0_mean32)
next
  fix b assume run: "filter_genes a = Inr b"
  then have pos: "0 < n_obs a"
    by (auto simp: filter_genes_def mean_axis0_def split: if_splits)
  let ?keep = "map (\<lambda>j. mean32 (column (X a) j) > mean_threshold) [0..<n_vars a]"
  from run pos have b: "b = slice_vars a ?keep"
    by (simp add: filter_genes_def mean_axis0_mean32 comp_def)
  have idx: "filter (\<lambda>j. ?keep ! j) [0..<n_vars a]
               = filter (\<lambda>j. mean32 (column (X a) j) > mean_threshold) [0..<n_vars a]"
    by (rule filter_cong) simp_all
  have "matrix_columns b
          = map (column (X a)) (filter (\<lambda>j. mean32 (column (X a) j) > mean_threshold) [0..<n_vars a])"
    unfolding b using matrix_columns_slice [OF ok, of ?keep] idx by simp
  then show "matrix_columns b = filter (\<lambda>c. mean32 c > mean_threshold) (matrix_columns a)"
    by (simp add: matrix_columns_def filter_map comp_def)
  have keep: "?keep = map (\<lambda>c. mean32 c > mean_threshold) (matrix_columns a)"
    by (simp add: matrix_columns_def comp_def)
  have "var_names b = select_mask ?keep (var_names a)"
    by (simp add: b slice_vars_def)
  then show "var_names b
      = map fst (filter (\<lambda>(name, c). mean32 c > mean_threshold)
                   (zip (var_names a) (matrix_columns a)))"
    by (simp only: keep select_mask_zip)
  show "anndata_ok b" unfolding b by (rule slice_vars_ok [OF ok]) simp
  show "n_obs b = n_obs a" by (simp add: b slice_vars_def n_obs_def)
  show "obs b = obs a" by (simp add: b slice_vars_def)
qed

lemma mean32_example:
  "\<not> mean32 [1, 3, 2] > mean_threshold" "mean32 [5, 2, 5] > mean_threshold"
  "\<not> mean32 [0, 0, 0] > mean_threshold" "mean32 [4, 1, 4] > mean_threshold"
  by code_simp+

theorem filter_genes_mean_threshold_witness:
  "anndata_ok adata_example \<and> 0 < n_obs adata_example
   \<and> (\<exists>b. filter_genes adata_example = Inr b
        \<and> matrix_columns b = [[5, 2, 5], [4, 1, 4]]
        \<and> var_names b = [''g2'', ''g4'']
        \<and> n_obs b = 3)"
proof -
  have ok: "anndata_ok adata_example"
    by (simp add: anndata_ok_def adata_example_def)
  have pos: "0 < n_obs adata_example"
    by (simp add: n_obs_def adata_example_def)
  have cols: "matrix_columns adata_example = [[1, 3, 2], [5, 2, 5], [0, 0, 0], [4, 1, 4]]"
    by (simp add: matrix_columns_def n_vars_def column_def adata_example_def upt_rec)
  have names: "var_names adata_example = [''g1'', ''g2'', ''g3'', ''g4'']"
    by (simp add: adata_example_def)
  from filter_genes_mean_threshold [OF ok] pos obtain b where
    run: "filter_genes adata_example = Inr b"
    by blast
  with filter_genes_mean_threshold [OF ok] have
    "matrix_columns b = filter (\<lambda>c. mean32 c > mean_threshold) (matrix_columns adata_example)"
    and "var_names b
      = map fst (filter (\<lambda>(name, c). mean32 c > mean_threshold)
                   (zip (var_names adata_example) (matrix_columns adata_example)))"
    and "n_obs b = n_obs adata_example"
    by blast+
  then have "matrix_columns b = [[5, 2, 5], [4, 1, 4]]" and "var_names b = [''g2'', ''g4'']"
    and "n_obs b = 3"
    unfolding cols names by (simp_all add: mean32_example n_obs_def adata_example_def)
  with ok pos run show ?thesis by blast
qed

text \<open>
  Claim C5 as stated fails, by the rounding of the mean. The counts of the genes \<open>g1\<close>
  and \<open>g2\<close> below have the mean 15 / 6 = 2.5, which does not exceed the threshold, and
  the single-precision sum of the first is 2.5000002: the filter keeps \<open>g1\<close> and drops
  \<open>g2\<close>, where the filter on the mean keeps \<open>g3\<close> alone.
\<close>

lemma mean32_rounding:
  "mean32 [0, 0, 0, 4, 7, 4] = 10485761 / 4194304"
  "mean32 [0, 0, 1, 6, 6, 2] = 10485759 / 4194304"
  "mean32 [3, 3, 3, 3, 3, 3] = 3"
  by code_simp+

theorem filter_genes_counterexample:
  "anndata_ok adata_rounding
   \<and> matrix_columns adata_rounding
       = [[0, 0, 0, 4, 7, 4], [0, 0, 1, 6, 6, 2], [3, 3, 3, 3, 3, 3]]
   \<and> column_mean [0, 0, 0, 4, 7, 4] = 5 / 2 \<and> column_mean [0, 0, 1, 6, 6, 2] = 5 / 2
   \<and> filter (\<lambda>c. column_mean c > mean_threshold) (matrix_columns adata_rounding)
       = [[3, 3, 3, 3, 3, 3]]
   \<and> (\<exists>b. filter_genes adata_rounding = Inr b
        \<and> matrix_columns b = [[0, 0, 0, 4, 7, 4], [3, 3, 3, 3, 3, 3]]
        \<and> var_names b = [''g1'', ''g3''])"
proof -
  have ok: "anndata_ok adata_rounding"
    by (simp add: anndata_ok_def adata_rounding_def)
  have cols: "matrix_columns adata_rounding
                = [[0, 0, 0, 4, 7, 4], [0, 0, 1, 6, 6, 2], [3, 3, 3, 3, 3, 3]]"
    by (simp add: matrix_columns_def n_vars_def column_def adata_rounding_def upt_rec)
  have exact: "column_mean [0, 0, 0, 4, 7, 4] = 5 / 2" "column_mean [0, 0, 1, 6, 6, 2] = 5 / 2"
    "column_mean [3, 3, 3, 3, 3, 3] = 3"
    by (simp_all add: column_mean_def)
  have spec: "filter (\<lambda>c. column_mean c > mean_threshold) (matrix_columns adata_rounding)
                = [[3, 3, 3, 3, 3, 3]]"
    unfolding cols by (simp add: exact mean_threshold_def)
  have pos: "0 < n_obs adata_rounding"
    by (simp add: n_obs_def adata_rounding_def)
  have means: "mean_axis0 adata_rounding = Inr [10485761 / 4194304, 10485759 / 4194304, 3]"
    unfolding mean_axis0_mean32 [OF pos]
    using cols by (simp add: matrix_columns_def n_vars_def adata_rounding_def upt_rec
        mean32_rounding)
  have run: "filter_genes adata_rounding
               = Inr (slice_vars adata_rounding [True, False, True])"
    by (simp add: filter_genes_def means mean_threshold_def)
  have "matrix_columns (slice_vars adata_rounding [True, False, True])
          = [[0, 0, 0, 4, 7, 4], [3, 3, 3, 3, 3, 3]]"
    by (simp add: matrix_columns_def n_vars_def column_def slice_vars_def adata_rounding_def
        upt_rec)
  moreover have "var_names (slice_vars adata_rounding [True, False, True]) = [''g1'', ''g3'']"
    by (simp add: slice_vars_def adata_rounding_def)
  ultimately show ?thesis using ok cols exact spec run by simp
qed

text \<open>
  The computed mean is the mean up to the rounding of its operations: on a column of \<open>n\<close>
  nonnegative numbers the two differ by a factor between \<open>(1 - 2\<^sup>-\<^sup>2\<^sup>4)\<^sup>n\<^sup>+\<^sup>3\<close> and
  \<open>(1 + 2\<^sup>-\<^sup>2\<^sup>4)\<^sup>n\<^sup>+\<^sup>3\<close>. A column whose mean is above the threshold by more than that
  factor is kept, and a kept column has a mean that is not below it by more.
\<close>

lemma sum32_acc_bounds:
  fixes u :: real
  assumes u: "u = 1 / 2 ^ 24"
  shows "\<forall>x\<in>set xs. 0 \<le> x \<Longrightarrow> 0 \<le> a \<Longrightarrow>
     (1 - u) ^ length xs * (a + sum_list xs) \<le> foldl (\<lambda>acc x. float32 (acc + x)) a xs
   \<and> foldl (\<lambda>acc x. float32 (acc + x)) a xs \<le> (1 + u) ^ length xs * (a + sum_list xs)"
proof (induction xs arbitrary: a)
  case Nil
  then show ?case by simp
next
  case (Cons x xs)
  define a' where "a' = float32 (a + x)"
  define k where "k = length xs"
  define S where "S = sum_list xs"
  define F where "F = foldl (\<lambda>acc x. float32 (acc + x)) a' xs"
  from Cons.prems have x: "0 \<le> x" and xs: "\<forall>x\<in>set xs. 0 \<le> x" and ax: "0 \<le> a + x"
    by simp_all
  from xs have S: "0 \<le> S" unfolding S_def by (simp add: sum_list_nonneg)
  from float32_nonneg [OF ax] have a': "0 \<le> a'" by (simp add: a'_def)
  from float32_bounds [OF ax] have b: "(1 - u) * (a + x) \<le> a'" "a' \<le> (1 + u) * (a + x)"
    by (simp_all add: a'_def u)
  have u01: "0 \<le> u" "u \<le> 1" by (simp_all add: u)
  from Cons.IH [OF xs a'] have ih: "(1 - u) ^ k * (a' + S) \<le> F" "F \<le> (1 + u) ^ k * (a' + S)"
    by (simp_all add: k_def S_def F_def)
  have "(1 - u) * (a + x + S) \<le> a' + S"
  proof -
    have "(1 - u) * S \<le> S" using S u01 by (simp add: mult_left_le_one_le)
    with b(1) show ?thesis by (simp add: algebra_simps)
  qed
  then have "(1 - u) ^ k * ((1 - u) * (a + x + S)) \<le> (1 - u) ^ k * (a' + S)"
    using u01 by (intro mult_left_mono) simp_all
  also note ih(1)
  finally have lo: "(1 - u) ^ Suc k * (a + x + S) \<le> F" by (simp add: mult.assoc mult.left_commute)
  have "a' + S \<le> (1 + u) * (a + x + S)"
  proof -
    have "S \<le> (1 + u) * S" using S u01 by (simp add: mult_le_cancel_right1)
    with b(2) show ?thesis by (simp add: algebra_simps)
  qed
  then have "(1 + u) ^ k * (a' + S) \<le> (1 + u) ^ k * ((1 + u) * (a + x + S))"
    using u01 by (intro mult_left_mono) simp_all
  with ih(2) have "F \<le> (1 + u) ^ k * ((1 + u) * (a + x + S))" by (rule order_trans)
  then have hi: "F \<le> (1 + u) ^ Suc k * (a + x + S)" by (simp add: mult.assoc mult.left_commute)
  from lo hi show ?case
    by (simp add: F_def a'_def k_def S_def add.assoc)
qed

lemma sum32_bounds:
  assumes "\<forall>x\<in>set xs. (0::real) \<le> x"
  shows "(1 - 1 / 2 ^ 24) ^ length xs * sum_list xs \<le> sum32 xs
       \<and> sum32 xs \<le> (1 + 1 / 2 ^ 24) ^ length xs * sum_list xs"
  using sum32_acc_bounds [OF refl, of xs 0] assms by (simp add: sum32_def)

lemma reciprocal32_bounds:
  assumes "0 < n"
  shows "0 \<le> reciprocal32 n"
    and "(1 - 1 / 2 ^ 24) ^ 2 * (1 / real n) \<le> reciprocal32 n"
    and "reciprocal32 n \<le> (1 + 1 / 2 ^ 24) ^ 2 * (1 / real n)"
proof -
  define u :: real where "u = 1 / 2 ^ 24"
  define q where "q = 1 / real n"
  define d where "d = double q"
  have q: "0 \<le> q" by (simp add: q_def)
  have u01: "0 \<le> u" "u \<le> 1" by (simp_all add: u_def)
  from double_bounds [OF q] have d: "(1 - u) * q \<le> d" "d \<le> (1 + u) * q"
    by (simp_all add: d_def u_def)
  from double_nonneg [OF q] have d0: "0 \<le> d" by (simp add: d_def)
  from float32_bounds [OF d0] have r: "(1 - u) * d \<le> float32 d" "float32 d \<le> (1 + u) * d"
    by (simp_all add: u_def)
  have "(1 - u) * ((1 - u) * q) \<le> (1 - u) * d" using d(1) u01 by (intro mult_left_mono) simp_all
  with r(1) have lo: "(1 - u) ^ 2 * q \<le> float32 d" by (simp add: power2_eq_square mult.assoc)
  have "(1 + u) * d \<le> (1 + u) * ((1 + u) * q)" using d(2) u01 by (intro mult_left_mono) simp_all
  with r(2) have hi: "float32 d \<le> (1 + u) ^ 2 * q" by (simp add: power2_eq_square mult.assoc)
  show "0 \<le> reciprocal32 n" using float32_nonneg [OF d0] by (simp add: reciprocal32_def d_def q_def)
  show "(1 - 1 / 2 ^ 24) ^ 2 * (1 / real n) \<le> reciprocal32 n"
    using lo unfolding u_def d_def q_def reciprocal32_def .
  show "reciprocal32 n \<le> (1 + 1 / 2 ^ 24) ^ 2 * (1 / real n)"
    using hi unfolding u_def d_def q_def reciprocal32_def .
qed

lemma mean32_near_column_mean:
  assumes ne: "c \<noteq> []" and nonneg: "\<forall>x\<in>set c. 0 \<le> x"
  shows "(1 - 1 / 2 ^ 24) ^ (length c + 3) * column_mean c \<le> mean32 c
       \<and> mean32 c \<le> (1 + 1 / 2 ^ 24) ^ (length c + 3) * column_mean c"
proof -
  define u :: real where "u = 1 / 2 ^ 24"
  define n where "n = length c"
  define r where "r = reciprocal32 n"
  define ts where "ts = map (\<lambda>x. float32 (x * r)) c"
  define S where "S = sum_list c"
  define T where "T = sum_list ts"
  define \<mu> where "\<mu> = S * (1 / real n)"
  have u01: "0 \<le> u" "u \<le> 1" by (simp_all add: u_def)
  from ne have n: "0 < n" by (simp add: n_def)
  from reciprocal32_bounds [OF n] have r0: "0 \<le> r"
    and r: "(1 - u) ^ 2 * (1 / real n) \<le> r" "r \<le> (1 + u) ^ 2 * (1 / real n)"
    by (simp_all add: r_def u_def)
  from nonneg have S: "0 \<le> S" unfolding S_def by (simp add: sum_list_nonneg)
  have \<mu>: "0 \<le> \<mu>" using S by (simp add: \<mu>_def)
  have each: "(1 - u) * (x * r) \<le> float32 (x * r) \<and> float32 (x * r) \<le> (1 + u) * (x * r)"
    if "x \<in> set c" for x
  proof -
    from that nonneg r0 have "0 \<le> x * r" by simp
    from float32_bounds [OF this] show ?thesis by (simp only: u_def)
  qed
  have ts0: "\<forall>t\<in>set ts. 0 \<le> t"
    using nonneg r0 by (auto simp: ts_def intro!: float32_nonneg)
  have scale: "sum_list (map (\<lambda>x. k * (x * r)) c) = k * (S * r)" for k
    unfolding S_def by (induction c) (simp_all add: algebra_simps)
  have "sum_list (map (\<lambda>x. (1 - u) * (x * r)) c) \<le> T"
    unfolding T_def ts_def using each by (intro sum_list_bounds) blast
  then have T_lo: "(1 - u) * (S * r) \<le> T" by (simp only: scale)
  have "T \<le> sum_list (map (\<lambda>x. (1 + u) * (x * r)) c)"
    unfolding T_def ts_def using each by (intro sum_list_bounds) blast
  then have T_hi: "T \<le> (1 + u) * (S * r)" by (simp only: scale)
  have Sr_lo: "(1 - u) ^ 2 * \<mu> \<le> S * r"
  proof -
    have "S * ((1 - u) ^ 2 * (1 / real n)) \<le> S * r" using r(1) S by (rule mult_left_mono)
    then show ?thesis by (simp add: \<mu>_def mult_ac)
  qed
  have Sr_hi: "S * r \<le> (1 + u) ^ 2 * \<mu>"
  proof -
    have "S * r \<le> S * ((1 + u) ^ 2 * (1 / real n))" using r(2) S by (rule mult_left_mono)
    then show ?thesis by (simp add: \<mu>_def mult_ac)
  qed
  have T3_lo: "(1 - u) ^ 3 * \<mu> \<le> T"
  proof -
    have "(1 - u) * ((1 - u) ^ 2 * \<mu>) \<le> (1 - u) * (S * r)"
      using Sr_lo u01 by (intro mult_left_mono) simp_all
    then have "(1 - u) * ((1 - u) ^ 2 * \<mu>) \<le> T" using T_lo by (rule order_trans)
    then show ?thesis by (simp add: power3_eq_cube power2_eq_square mult.assoc)
  qed
  have T3_hi: "T \<le> (1 + u) ^ 3 * \<mu>"
  proof -
    have "(1 + u) * (S * r) \<le> (1 + u) * ((1 + u) ^ 2 * \<mu>)"
      using Sr_hi u01 by (intro mult_left_mono) simp_all
    with T_hi have "T \<le> (1 + u) * ((1 + u) ^ 2 * \<mu>)" by (rule order_trans)
    then show ?thesis by (simp add: power3_eq_cube power2_eq_square mult.assoc)
  qed
  have len: "length ts = n" by (simp add: ts_def n_def)
  from sum32_bounds [OF ts0] have F: "(1 - u) ^ n * T \<le> sum32 ts" "sum32 ts \<le> (1 + u) ^ n * T"
    by (simp_all only: len T_def u_def)
  have lo: "(1 - u) ^ (n + 3) * \<mu> \<le> sum32 ts"
  proof -
    have "(1 - u) ^ n * ((1 - u) ^ 3 * \<mu>) \<le> (1 - u) ^ n * T"
      using T3_lo u01 by (intro mult_left_mono) simp_all
    then have "(1 - u) ^ n * ((1 - u) ^ 3 * \<mu>) \<le> sum32 ts" using F(1) by (rule order_trans)
    then show ?thesis by (simp only: power_add mult.assoc)
  qed
  have hi: "sum32 ts \<le> (1 + u) ^ (n + 3) * \<mu>"
  proof -
    have "(1 + u) ^ n * T \<le> (1 + u) ^ n * ((1 + u) ^ 3 * \<mu>)"
      using T3_hi u01 by (intro mult_left_mono) simp_all
    with F(2) have "sum32 ts \<le> (1 + u) ^ n * ((1 + u) ^ 3 * \<mu>)" by (rule order_trans)
    then show ?thesis by (simp only: power_add mult.assoc)
  qed
  have m: "mean32 c = sum32 ts" by (simp add: mean32_def ts_def r_def n_def)
  have cm: "column_mean c = \<mu>" by (simp add: column_mean_def \<mu>_def S_def n_def)
  from lo hi show ?thesis unfolding m cm u_def n_def by blast
qed

lemma mean32_above_threshold:
  assumes "c \<noteq> []" and "\<forall>x\<in>set c. 0 \<le> x"
  shows "mean_threshold < (1 - 1 / 2 ^ 24) ^ (length c + 3) * column_mean c
           \<Longrightarrow> mean_threshold < mean32 c"
    and "mean_threshold < mean32 c
           \<Longrightarrow> mean_threshold < (1 + 1 / 2 ^ 24) ^ (length c + 3) * column_mean c"
  using mean32_near_column_mean [OF assms] by linarith+

subsection \<open>Subsampling\<close>

lemma take_rows_n_obs: "n_obs (take_rows a idx) = length idx"
  by (simp add: take_rows_def n_obs_def)

text \<open>
  Claim C6. On an object with at least \<open>n_obs\<close> rows, subsampling to \<open>n_obs\<close> cells
  returns an object with exactly \<open>n_obs\<close> rows, which are rows of the input at distinct
  positions, over the same genes. The notebook calls it with 1000 and with 250.
\<close>

theorem subsample_n_obs:
  assumes ok: "anndata_ok a"
    and enough: "new_n_obs \<le> n_obs a"
    and perm: "is_permutation perm (n_obs a)"
  shows "\<exists>b. subsample a new_n_obs perm = Inr b
           \<and> n_obs b = new_n_obs
           \<and> anndata_ok b
           \<and> var_names b = var_names a
           \<and> X b = map (\<lambda>i. X a ! i) (take new_n_obs perm)
           \<and> distinct (take new_n_obs perm)
           \<and> set (X b) \<subseteq> set (X a)"
proof -
  let ?idx = "take new_n_obs perm"
  let ?b = "take_rows a ?idx"
  from perm have lp: "length perm = n_obs a" and dp: "distinct perm"
    and bound: "\<And>i. i \<in> set perm \<Longrightarrow> i < n_obs a"
    by (simp_all add: is_permutation_def list_all_iff)
  have run: "subsample a new_n_obs perm = Inr ?b"
    using enough by (simp add: subsample_def)
  have len: "length ?idx = new_n_obs" using enough lp by (simp add: min_def)
  have n: "n_obs ?b = new_n_obs" unfolding take_rows_n_obs by (rule len)
  have idx: "i < length (X a)" if "i \<in> set ?idx" for i
    using bound [of i] that by (auto simp: n_obs_def dest: in_set_takeD)
  have sub: "set (X ?b) \<subseteq> set (X a)"
    using idx by (auto simp: take_rows_def)
  have okb: "anndata_ok ?b"
    using ok sub by (auto simp: anndata_ok_def list_all_iff take_rows_def)
  have dist: "distinct ?idx" using dp by simp
  have xb: "X ?b = map (\<lambda>i. X a ! i) ?idx" and vn: "var_names ?b = var_names a"
    by (simp_all add: take_rows_def)
  from run n okb vn xb dist sub show ?thesis by blast
qed

theorem subsample_n_obs_witness:
  "anndata_ok adata_example \<and> 2 \<le> n_obs adata_example
   \<and> is_permutation [2, 0, 1] (n_obs adata_example)
   \<and> (\<exists>b. subsample adata_example 2 [2, 0, 1] = Inr b \<and> n_obs b = 2
        \<and> X b = [[2, 5, 0, 4], [1, 5, 0, 4]])"
proof -
  have ok: "anndata_ok adata_example"
    by (simp add: anndata_ok_def adata_example_def)
  have enough: "2 \<le> n_obs adata_example"
    by (simp add: n_obs_def adata_example_def)
  have perm: "is_permutation [2, 0, 1] (n_obs adata_example)"
    by (simp add: is_permutation_def n_obs_def adata_example_def)
  from subsample_n_obs [OF ok enough perm] obtain b where
    "subsample adata_example 2 [2, 0, 1] = Inr b" and "n_obs b = 2"
    and "X b = map (\<lambda>i. X adata_example ! i) (take 2 [2, 0, 1])"
    by blast
  moreover from this have "X b = [[2, 5, 0, 4], [1, 5, 0, 4]]"
    by (simp add: adata_example_def)
  ultimately show ?thesis using ok enough perm by blast
qed

text \<open>With fewer rows the call raises, and every replicate written has 250 rows.\<close>

lemma subsample_too_few:
  "n_obs a < new_n_obs \<Longrightarrow> subsample a new_n_obs perm = Inl ValueError"
  by (simp add: subsample_def)

lemma subsampled_replicates_n_obs:
  assumes "subsampled_replicates adata perms = Inr written"
    and perms: "\<forall>perm\<in>set perms. is_permutation perm (n_obs adata)"
  shows "length written = length perms \<and> (\<forall>b\<in>set written. n_obs b = n_cells)"
proof -
  have "for_loop perms
       (\<lambda>perm written.
          case subsample adata n_cells perm of
            Inl e \<Rightarrow> Inl e
          | Inr adata_sample \<Rightarrow> Inr (written @ [adata_sample])) acc = Inr written
        \<Longrightarrow> (\<forall>b\<in>set acc. n_obs b = n_cells)
        \<Longrightarrow> (\<forall>perm\<in>set perms. is_permutation perm (n_obs adata))
        \<Longrightarrow> length written = length acc + length perms \<and> (\<forall>b\<in>set written. n_obs b = n_cells)" for acc
  proof (induction perms arbitrary: acc)
    case Nil
    then show ?case by simp
  next
    case (Cons perm perms)
    from Cons.prems(1) obtain b where b: "subsample adata n_cells perm = Inr b"
      by (cases "subsample adata n_cells perm") auto
    moreover from Cons.prems(3) have "length perm = n_obs adata"
      by (simp add: is_permutation_def)
    ultimately have nb: "n_obs b = n_cells"
      by (auto simp: subsample_def take_rows_n_obs min_def split: if_splits)
    from Cons.prems b have "for_loop perms
       (\<lambda>perm written.
          case subsample adata n_cells perm of
            Inl e \<Rightarrow> Inl e
          | Inr adata_sample \<Rightarrow> Inr (written @ [adata_sample])) (acc @ [b]) = Inr written"
      by simp
    from Cons.IH [OF this] Cons.prems(2,3) nb show ?case by simp
  qed
  from this [of "[]"] assms show ?thesis by (simp add: subsampled_replicates_def)
qed

text \<open>The downsampled dataset has 2000 cells, before and after the gene filter.\<close>

lemma subsample_Inr_n_obs:
  assumes "subsample a k perm = Inr b" and "is_permutation perm (n_obs a)"
  shows "n_obs b = k"
proof -
  from assms(1) have k: "k \<le> n_obs a" and b: "b = take_rows a (take k perm)"
    by (auto simp: subsample_def split: if_splits)
  from assms(2) have "length perm = n_obs a" by (simp add: is_permutation_def)
  with k show ?thesis by (simp add: b take_rows_n_obs min_def)
qed

lemma filter_genes_n_obs: "filter_genes a = Inr b \<Longrightarrow> n_obs b = n_obs a"
  by (auto simp: filter_genes_def slice_vars_def n_obs_def split: sum.splits)

lemma downsampled_subset_n_obs:
  assumes "downsampled_subset ifn_adata perm_ctrl perm_stim = Inr sub"
    and "is_permutation perm_ctrl (n_obs (monocytes_of ifn_adata ''ctrl''))"
    and "is_permutation perm_stim (n_obs (monocytes_of ifn_adata ''stim''))"
  shows "n_obs sub = 2000"
proof -
  from assms(1) obtain ctrl_subset stim_subset where
    c: "subsample (monocytes_of ifn_adata ''ctrl'') 1000 perm_ctrl = Inr ctrl_subset"
    and s: "subsample (monocytes_of ifn_adata ''stim'') 1000 perm_stim = Inr stim_subset"
    and f: "filter_genes (concatenate ctrl_subset stim_subset) = Inr sub"
    by (auto simp: downsampled_subset_def split: sum.splits)
  from subsample_Inr_n_obs [OF c assms(2)] subsample_Inr_n_obs [OF s assms(3)]
  have "n_obs (concatenate ctrl_subset stim_subset) = 2000"
    by (simp add: concatenate_def n_obs_def)
  with filter_genes_n_obs [OF f] show ?thesis by simp
qed

section \<open>SAVER comparison\<close>

subsection \<open>The size factors\<close>

lemma colSums_nonneg: "c \<in> set (colSums d) \<Longrightarrow> 0 \<le> c"
  by (auto simp: colSums_def split: list.splits intro!: add_nonneg_nonneg sum_list_nonneg)

lemma colSums_mean_zero:
  assumes "r_mean (colSums d) = Some 0" and "c \<in> set (colSums d)"
  shows "c = 0"
proof -
  from assms(1) have "sum_list (colSums d) = 0"
    by (auto simp: r_mean_def split: if_splits)
  moreover have "\<forall>x\<in>set (colSums d). 0 \<le> x" using colSums_nonneg by blast
  ultimately have "\<forall>x\<in>set (colSums d). x = 0"
    by (simp add: sum_list_nonneg_eq_0_iff)
  with assms(2) show ?thesis by blast
qed

lemma sf_defined:
  assumes "r_mean (colSums d) = Some m" and "m \<noteq> 0"
  shows "sf d = map Some (map (\<lambda>c. c / m) (colSums d))"
  using assms by (simp add: sf_def r_div_def)

lemma sum_list_divide: "(\<Sum>x\<leftarrow>xs. x / (c::real)) = sum_list xs / c"
  by (induction xs) (simp_all add: add_divide_distrib)

text \<open>In exact arithmetic the mean of the size factors is 1.\<close>

lemma sf_exact_mean_one:
  assumes "r_mean (colSums d) = Some m" and "m \<noteq> 0"
  shows "\<exists>v. sf d = map Some v \<and> length v = length (colSums d) \<and> r_mean v = Some 1"
proof -
  let ?cs = "colSums d"
  let ?v = "map (\<lambda>c. c / m) ?cs"
  from assms(1) have ne: "?cs \<noteq> []" and m: "m = sum_list ?cs / real (length ?cs)"
    by (auto simp: r_mean_def split: if_splits)
  have "sum_list ?v / real (length ?v) = (sum_list ?cs / real (length ?cs)) / m"
    by (simp add: sum_list_divide)
  also have "\<dots> = 1" unfolding m [symmetric] using assms(2) by simp
  finally have one: "sum_list ?v / real (length ?v) = 1" .
  have "r_mean ?v = Some (sum_list ?v / real (length ?v))"
    using ne by (simp add: r_mean_def)
  then have "r_mean ?v = Some 1" by (simp only: one)
  moreover have "length ?v = length ?cs" by simp
  ultimately show ?thesis using sf_defined [OF assms] by blast
qed

text \<open>In double precision each quotient and the mean carry a relative error of at most \<open>u\<close>.\<close>

lemma colSums_double_nonneg: "c \<in> set (colSums_double d) \<Longrightarrow> 0 \<le> c"
  by (auto simp: colSums_double_def intro: double_nonneg colSums_nonneg)

lemma sum_list_scale_divide:
  fixes k m :: real
  shows "sum_list (map (\<lambda>c. k * (c / m)) xs) = k * (sum_list xs / m)"
  by (induction xs) (simp_all add: algebra_simps add_divide_distrib)

text \<open>
  Claim C10, as amended. When the mean of the column sums of the count matrix is not zero,
  no size factor is missing, and the arithmetic mean of the size factors that R computes
  lies between \<open>(1 - u) / (1 + u)\<close> and \<open>(1 + u) / (1 - u)\<close>, where \<open>u = 2\<^sup>-\<^sup>5\<^sup>3\<close> is the
  unit roundoff of the doubles: it is 1 up to the rounding of the mean and of the
  quotients, and needs not be 1.
\<close>

theorem sf_double_mean_near_one:
  assumes mean: "mean_double (colSums_double d) = Some m" and nz: "m \<noteq> 0"
  shows "\<exists>v \<mu>. sf_double d = map Some v \<and> length v = length (colSums d)
           \<and> r_mean v = Some \<mu>
           \<and> (1 - unit_roundoff) / (1 + unit_roundoff) \<le> \<mu>
           \<and> \<mu> \<le> (1 + unit_roundoff) / (1 - unit_roundoff)"
proof -
  define u where "u = unit_roundoff"
  have u: "0 < u" "u < 1" by (simp_all add: u_def unit_roundoff_def)
  define cs where "cs = colSums_double d"
  define n where "n = real (length cs)"
  define S where "S = sum_list cs"
  define \<mu> where "\<mu> = S / n"
  define v where "v = map (\<lambda>c. double (c / m)) cs"
  from mean have ne: "cs \<noteq> []" and m: "m = double \<mu>"
    by (auto simp: mean_double_def cs_def \<mu>_def S_def n_def split: if_splits)
  from ne have n: "0 < n" by (simp add: n_def)
  have cs_nonneg: "0 \<le> c" if "c \<in> set cs" for c
    using that colSums_double_nonneg by (simp add: cs_def)
  then have "0 \<le> S" unfolding S_def by (rule sum_list_nonneg)
  with n have "0 \<le> \<mu>" by (simp add: \<mu>_def)
  moreover have "\<mu> \<noteq> 0" using nz m double_zero by auto
  ultimately have \<mu>: "0 < \<mu>" by simp
  from double_error [of \<mu>] \<mu> have "\<bar>m - \<mu>\<bar> \<le> u * \<mu>" by (simp add: m u_def)
  then have m_lo: "(1 - u) * \<mu> \<le> m" and m_hi: "m \<le> (1 + u) * \<mu>"
    by (simp_all add: abs_le_iff algebra_simps)
  from m_lo u \<mu> have mpos: "0 < m"
    by (meson less_le_trans mult_pos_pos diff_gt_0_iff_gt)
  from mean have mean': "mean_double cs = Some m" by (simp only: cs_def)
  have sf: "sf_double d = map Some v"
    unfolding sf_double_def cs_def [symmetric] mean' v_def
    using nz by (simp add: div_double_def r_div_def)
  have each: "(1 - u) * (c / m) \<le> double (c / m) \<and> double (c / m) \<le> (1 + u) * (c / m)"
    if "c \<in> set cs" for c
  proof -
    define q where "q = c / m"
    from cs_nonneg [OF that] mpos have "0 \<le> q" by (simp add: q_def)
    from double_error [OF this] have "(1 - u) * q \<le> double q \<and> double q \<le> (1 + u) * q"
      by (simp add: abs_le_iff algebra_simps u_def)
    then show ?thesis by (simp only: q_def)
  qed
  have "sum_list (map (\<lambda>c. (1 - u) * (c / m)) cs) \<le> sum_list v"
    unfolding v_def using each by (intro sum_list_bounds) blast
  then have lo: "(1 - u) * (S / m) \<le> sum_list v"
    by (simp only: S_def sum_list_scale_divide)
  have "sum_list v \<le> sum_list (map (\<lambda>c. (1 + u) * (c / m)) cs)"
    unfolding v_def using each by (intro sum_list_bounds) blast
  then have hi: "sum_list v \<le> (1 + u) * (S / m)"
    by (simp only: S_def sum_list_scale_divide)
  have Sn: "S = \<mu> * n" using n by (simp add: \<mu>_def)
  have len: "real (length v) = n" by (simp add: v_def n_def)
  define t where "t = \<mu> / m"
  have t_lo: "1 / (1 + u) \<le> t"
    using m_hi mpos \<mu> u by (simp add: t_def field_simps)
  have t_hi: "t \<le> 1 / (1 - u)"
    using m_lo mpos \<mu> u by (simp add: t_def field_simps)
  have tpos: "0 \<le> t" using mpos \<mu> by (simp add: t_def)
  have mean_lo: "(1 - u) * t \<le> sum_list v / n"
  proof -
    have "(1 - u) * t = (1 - u) * (S / m) / n" using n by (simp add: Sn t_def)
    also have "\<dots> \<le> sum_list v / n" using n by (intro divide_right_mono lo) simp
    finally show ?thesis .
  qed
  have mean_hi: "sum_list v / n \<le> (1 + u) * t"
  proof -
    have "sum_list v / n \<le> (1 + u) * (S / m) / n" using n by (intro divide_right_mono hi) simp
    also have "\<dots> = (1 + u) * t" using n by (simp add: Sn t_def)
    finally show ?thesis .
  qed
  have "(1 - u) / (1 + u) = (1 - u) * (1 / (1 + u))" by simp
  also have "\<dots> \<le> (1 - u) * t" using t_lo u by (intro mult_left_mono) simp_all
  also note mean_lo
  finally have A: "(1 - u) / (1 + u) \<le> sum_list v / n" .
  note mean_hi
  also have "(1 + u) * t \<le> (1 + u) * (1 / (1 - u))" using t_hi u by (intro mult_left_mono) simp_all
  also have "\<dots> = (1 + u) / (1 - u)" by simp
  finally have B: "sum_list v / n \<le> (1 + u) / (1 - u)" .
  have "length v = length (colSums d)" by (simp add: v_def cs_def colSums_double_def)
  moreover from ne have "r_mean v = Some (sum_list v / n)"
    by (simp add: r_mean_def v_def n_def)
  ultimately show ?thesis using sf A B unfolding u_def by blast
qed

lemma mean_double_224:
  "mean_double (colSums_double [[1, 2, 3], [1, 0, 1]]) = Some (6004799503160661 / 2 ^ 51)"
  by code_simp

theorem sf_double_mean_near_one_witness:
  "mean_double (colSums_double [[1, 2, 3], [1, 0, 1]]) = Some (6004799503160661 / 2 ^ 51)
   \<and> (6004799503160661 / 2 ^ 51 :: real) \<noteq> 0
   \<and> (\<exists>v \<mu>. sf_double [[1, 2, 3], [1, 0, 1]] = map Some v
          \<and> length v = length (colSums [[1, 2, 3], [1, 0, 1]])
          \<and> r_mean v = Some \<mu>
          \<and> (1 - unit_roundoff) / (1 + unit_roundoff) \<le> \<mu>
          \<and> \<mu> \<le> (1 + unit_roundoff) / (1 - unit_roundoff))"
proof -
  have nz: "(6004799503160661 / 2 ^ 51 :: real) \<noteq> 0" by simp
  from sf_double_mean_near_one [OF mean_double_224 nz] mean_double_224 nz
  show ?thesis by blast
qed

lemma sf_double_113:
  "sf_double [[1, 1, 3]] =
     [Some (5404319552844595 / 2 ^ 53), Some (5404319552844595 / 2 ^ 53),
      Some (8106479329266892 / 2 ^ 52)]"
  "mean_double (colSums_double [[1, 1, 3]]) = Some (7505999378950827 / 2 ^ 52)"
  "mean_double [5404319552844595 / 2 ^ 53, 5404319552844595 / 2 ^ 53, 8106479329266892 / 2 ^ 52]
     = Some (9007199254740991 / 2 ^ 53)"
  by code_simp+

text \<open>
  Claim C10 as stated fails, by the rounding of the quotients. The column sums 1, 1, 3
  have the mean 5/3, not zero, and R gives the size factors 0.6, 0.6 and
  1.7999999999999998: their mean is below 1, in exact arithmetic and as R computes it.
\<close>

theorem sf_mean_one_counterexample:
  "mean_double (colSums_double [[1, 1, 3]]) = Some (7505999378950827 / 2 ^ 52)
   \<and> (7505999378950827 / 2 ^ 52 :: real) \<noteq> 0
   \<and> sf_double [[1, 1, 3]] =
       [Some (5404319552844595 / 2 ^ 53), Some (5404319552844595 / 2 ^ 53),
        Some (8106479329266892 / 2 ^ 52)]
   \<and> r_mean [5404319552844595 / 2 ^ 53, 5404319552844595 / 2 ^ 53, 8106479329266892 / 2 ^ 52]
       = Some (13510798882111487 / 13510798882111488)
   \<and> (13510798882111487 / 13510798882111488 :: real) \<noteq> 1
   \<and> mean_double [5404319552844595 / 2 ^ 53, 5404319552844595 / 2 ^ 53, 8106479329266892 / 2 ^ 52]
       = Some (9007199254740991 / 2 ^ 53)
   \<and> (9007199254740991 / 2 ^ 53 :: real) \<noteq> 1"
  using sf_double_113 by (simp add: r_mean_def)

subsection \<open>The loop over the genes\<close>

lemma adj_body_ok:
  "i < length estimate \<Longrightarrow> i < length se \<Longrightarrow>
     adj_body estimate se sfv i v = Inr (v[i := shrinkage_factor (estimate ! i) (se ! i) sfv])"
  by (simp add: adj_body_def shrinkage_factor_def Let_def)

lemma adj_body_out_of_bounds:
  "length estimate \<le> i \<or> length se \<le> i \<Longrightarrow>
     adj_body estimate se sfv i v = Inl SubscriptOutOfBounds"
  by (auto simp: adj_body_def)

lemma adj_loop_prefix:
  assumes "n \<le> length estimate" and "n \<le> length se" and "k \<le> n"
  shows "for_loop [0..<k] (adj_body estimate se sfv) (replicate n (Some 0))
           = Inr (map (\<lambda>i. shrinkage_factor (estimate ! i) (se ! i) sfv) [0..<k]
                   @ replicate (n - k) (Some 0))"
  using assms(3)
proof (induction k)
  case 0
  then show ?case by simp
next
  case (Suc k)
  let ?f = "\<lambda>i. shrinkage_factor (estimate ! i) (se ! i) sfv"
  from Suc.prems have k: "k < n" by simp
  then have rep: "replicate (n - k) (Some (0::real)) = Some 0 # replicate (n - Suc k) (Some 0)"
    by (cases "n - k") (simp_all add: Suc_diff_Suc)
  from k assms have bounds: "k < length estimate" "k < length se" by simp_all
  have "for_loop [0..<Suc k] (adj_body estimate se sfv) (replicate n (Some 0))
          = adj_body estimate se sfv k (map ?f [0..<k] @ replicate (n - k) (Some 0))"
    using Suc.IH k by (simp add: for_loop_append split: sum.splits)
  also have "\<dots> = Inr ((map ?f [0..<k] @ replicate (n - k) (Some 0))[k := ?f k])"
    using bounds by (rule adj_body_ok)
  also have "(map ?f [0..<k] @ replicate (n - k) (Some 0))[k := ?f k]
               = map ?f [0..<Suc k] @ replicate (n - Suc k) (Some 0)"
    by (simp add: list_update_append rep)
  finally show ?case .
qed

lemma adj_vec_closed_form:
  assumes "n \<le> length estimate" and "n \<le> length se"
  shows "adj_vec n estimate se sfv
           = Inr (map (\<lambda>i. shrinkage_factor (estimate ! i) (se ! i) sfv) [0..<n])"
  using adj_loop_prefix [OF assms, of n sfv] by (simp add: adj_vec_def)

lemma upt_split_at:
  assumes "k < n"
  shows "[0..<n] = [0..<k] @ k # [Suc k..<n]"
proof -
  from assms have "[0..<k + (n - k)] = [0..<k] @ [k..<k + (n - k)]"
    by (intro upt_add_eq_append) simp
  with assms have "[0..<n] = [0..<k] @ [k..<n]" by simp
  with assms show ?thesis by (simp only: upt_conv_Cons)
qed

text \<open>A matrix with fewer rows than the loop visits ends the loop with an error.\<close>

lemma adj_vec_too_few_rows:
  assumes "length estimate < n \<or> length se < n"
  shows "\<exists>e. adj_vec n estimate se sfv = Inl e"
proof -
  let ?k = "min (length estimate) (length se)"
  from assms have k: "?k < n" by auto
  then have split: "[0..<n] = [0..<?k] @ ?k # [Suc ?k..<n]"
    by (rule upt_split_at)
  have "adj_body estimate se sfv ?k v = Inl SubscriptOutOfBounds" for v
    by (rule adj_body_out_of_bounds) (auto simp: min_def)
  then show ?thesis
    unfolding adj_vec_def split
    by (cases "for_loop [0..<?k] (adj_body estimate se sfv) (replicate n (Some 0))")
      (simp_all add: for_loop_append)
qed

subsection \<open>The entries of the matrices\<close>

lemma temp_cor_entry:
  assumes "i < length estimate" and "j < length estimate"
  shows "temp_cor estimate sfv ! i ! j
           = r_cor (vec_mul (map Some (estimate ! i)) sfv) (vec_mul (map Some (estimate ! j)) sfv)"
  using assms by (simp add: temp_cor_def sweep_rows_def)

lemma length_temp_cor:
  "length (temp_cor estimate sfv) = length estimate"
  "i < length estimate \<Longrightarrow> length (temp_cor estimate sfv ! i) = length estimate"
  by (simp_all add: temp_cor_def sweep_rows_def)

lemma length_outer:
  "length (outer xs ys) = length xs"
  "i < length xs \<Longrightarrow> length (outer xs ys ! i) = length ys"
  by (simp_all add: outer_def)

lemma outer_entry:
  "i < length xs \<Longrightarrow> j < length ys \<Longrightarrow> outer xs ys ! i ! j = r_mul (xs ! i) (ys ! j)"
  by (simp add: outer_def)

lemma mat_mul_elem_entries:
  assumes "length a = n" and "length b = n"
    and "\<And>i. i < n \<Longrightarrow> length (a ! i) = n" and "\<And>i. i < n \<Longrightarrow> length (b ! i) = n"
  shows "\<exists>m. mat_mul_elem a b = Inr m \<and> length m = n
           \<and> (\<forall>i<n. length (m ! i) = n \<and> (\<forall>j<n. m ! i ! j = r_mul (a ! i ! j) (b ! i ! j)))"
proof -
  have conf: "conformable a b"
    using assms by (auto simp: conformable_def list_all_iff in_set_zip)
  let ?m = "map (\<lambda>(x, y). vec_mul x y) (zip a b)"
  have "length ?m = n" using assms by simp
  moreover have "length (?m ! i) = n \<and> (\<forall>j<n. ?m ! i ! j = r_mul (a ! i ! j) (b ! i ! j))"
    if "i < n" for i
    using assms that by (simp add: vec_mul_def)
  ultimately show ?thesis using conf by (simp add: mat_mul_elem_def)
qed

lemma saver_cor_entries:
  assumes "length estimate = n" and "length se = n"
  shows "\<exists>m. saver_cor n dropseq_data estimate se = Inr m \<and> length m = n
           \<and> (\<forall>i<n. length (m ! i) = n
                \<and> (\<forall>j<n. m ! i ! j =
                      r_mul (temp_cor estimate (sf dropseq_data) ! i ! j)
                        (r_mul (shrinkage_factor (estimate ! i) (se ! i) (sf dropseq_data))
                               (shrinkage_factor (estimate ! j) (se ! j) (sf dropseq_data)))))"
proof -
  let ?sf = "sf dropseq_data"
  let ?adj = "map (\<lambda>i. shrinkage_factor (estimate ! i) (se ! i) ?sf) [0..<n]"
  have adj: "adj_vec n estimate se ?sf = Inr ?adj"
    using assms by (simp add: adj_vec_closed_form)
  have run: "saver_cor n dropseq_data estimate se
               = mat_mul_elem (temp_cor estimate ?sf) (outer ?adj ?adj)"
    by (simp add: saver_cor_def adj)
  from mat_mul_elem_entries [of "temp_cor estimate ?sf" n "outer ?adj ?adj"] assms
  obtain m where m: "mat_mul_elem (temp_cor estimate ?sf) (outer ?adj ?adj) = Inr m"
    and len: "length m = n"
    and ent: "\<forall>i<n. length (m ! i) = n
                \<and> (\<forall>j<n. m ! i ! j = r_mul (temp_cor estimate ?sf ! i ! j) (outer ?adj ?adj ! i ! j))"
    by (auto simp: length_temp_cor length_outer)
  have "outer ?adj ?adj ! i ! j
          = r_mul (shrinkage_factor (estimate ! i) (se ! i) ?sf)
                  (shrinkage_factor (estimate ! j) (se ! j) ?sf)"
    if "i < n" "j < n" for i j
    using that by (simp add: outer_entry)
  with ent have "\<forall>i<n. length (m ! i) = n
                \<and> (\<forall>j<n. m ! i ! j =
                      r_mul (temp_cor estimate ?sf ! i ! j)
                        (r_mul (shrinkage_factor (estimate ! i) (se ! i) ?sf)
                               (shrinkage_factor (estimate ! j) (se ! j) ?sf)))"
    by simp
  with run m len show ?thesis by simp
qed

text \<open>A matrix with more rows than the loop visits makes the last product fail.\<close>

lemma saver_cor_too_many_rows:
  assumes "n < length estimate" and "n \<le> length se"
  shows "saver_cor n dropseq_data estimate se = Inl NonConformableArrays"
proof -
  have "adj_vec n estimate se (sf dropseq_data)
          = Inr (map (\<lambda>i. shrinkage_factor (estimate ! i) (se ! i) (sf dropseq_data)) [0..<n])"
    using assms by (simp add: adj_vec_closed_form)
  moreover have "\<not> conformable (temp_cor estimate (sf dropseq_data)) (outer xs xs)"
    if "length xs = n" for xs
    using assms(1) that by (simp add: conformable_def length_temp_cor length_outer)
  ultimately show ?thesis by (simp add: saver_cor_def mat_mul_elem_def)
qed

subsection \<open>The closed form\<close>

text \<open>
  Claim C3. On matrices with as many genes as the loop visits, the loop returns the vector
  whose entry for gene \<open>i\<close> is the closed form,
  \<open>sqrt(var(estimate\<^sub>i * sf) / (var(estimate\<^sub>i * sf) + mean(se\<^sub>i\<^sup>2 * sf\<^sup>2)))\<close>, and the notebook
  returns the matrix whose entry \<open>(i, j)\<close> is the entry of \<^verbatim>\<open>temp.cor\<close> times the entry
  \<open>adj.vec\<^sub>i * adj.vec\<^sub>j\<close> of the outer product.
\<close>

theorem saver_cor_closed_form:
  assumes "length estimate = n" and "length se = n"
  shows "\<exists>adj m.
           adj_vec n estimate se (sf dropseq_data) = Inr adj \<and> length adj = n
         \<and> saver_cor n dropseq_data estimate se = Inr m \<and> length m = n
         \<and> (\<forall>i<n. adj ! i = shrinkage_factor (estimate ! i) (se ! i) (sf dropseq_data)
              \<and> length (m ! i) = n
              \<and> (\<forall>j<n. outer adj adj ! i ! j = r_mul (adj ! i) (adj ! j)
                    \<and> m ! i ! j = r_mul (temp_cor estimate (sf dropseq_data) ! i ! j)
                                        (outer adj adj ! i ! j)))"
proof -
  let ?sf = "sf dropseq_data"
  let ?adj = "map (\<lambda>i. shrinkage_factor (estimate ! i) (se ! i) ?sf) [0..<n]"
  have adj: "adj_vec n estimate se ?sf = Inr ?adj"
    using assms by (simp add: adj_vec_closed_form)
  from saver_cor_entries [OF assms, of dropseq_data] obtain m where
    m: "saver_cor n dropseq_data estimate se = Inr m" "length m = n"
    and ent: "\<forall>i<n. length (m ! i) = n
                \<and> (\<forall>j<n. m ! i ! j =
                      r_mul (temp_cor estimate ?sf ! i ! j)
                        (r_mul (shrinkage_factor (estimate ! i) (se ! i) ?sf)
                               (shrinkage_factor (estimate ! j) (se ! j) ?sf)))"
    by blast
  have "\<forall>i<n. ?adj ! i = shrinkage_factor (estimate ! i) (se ! i) ?sf
              \<and> length (m ! i) = n
              \<and> (\<forall>j<n. outer ?adj ?adj ! i ! j = r_mul (?adj ! i) (?adj ! j)
                    \<and> m ! i ! j = r_mul (temp_cor estimate ?sf ! i ! j) (outer ?adj ?adj ! i ! j))"
    using ent by (simp add: outer_entry)
  moreover have "length ?adj = n" by simp
  ultimately show ?thesis using adj m by blast
qed

text \<open>The example: two genes, three cells.\<close>

lemma sf_counts_example: "sf counts_example = [Some 1, Some 1, Some 1]"
proof -
  have "colSums counts_example = [2, 2, 2]"
    by (simp add: colSums_def counts_example_def upt_rec)
  then show ?thesis by (simp add: sf_def r_mean_def r_div_def)
qed

lemma shrinkage_factor_example:
  "shrinkage_factor [1, 2, 3] [3, 0, 0] [Some 1, Some 1, Some 1] = Some (1 / 2)"
  "shrinkage_factor [3, 1, 2] [0, 0, 0] [Some 1, Some 1, Some 1] = Some 1"
  by (simp_all add: shrinkage_factor_def vec_mul_def vec_sq_def r_mul_def r_var_def r_mean_def
      sum_sq_dev_def r_add_def r_div_def r_sqrt_def real_sqrt_divide power2_eq_square)

lemma temp_cor_example:
  "temp_cor estimate_example [Some 1, Some 1, Some 1]
     = [[Some 1, Some (- 1 / 2)], [Some (- 1 / 2), Some 1]]"
  by (simp add: temp_cor_def sweep_rows_def estimate_example_def vec_mul_def r_mul_def r_cor_def
      sum_sq_dev_def sum_co_dev_def power2_eq_square Let_def)

theorem saver_cor_closed_form_witness:
  "length estimate_example = 2 \<and> length se_example = 2
   \<and> (\<exists>adj m. adj_vec 2 estimate_example se_example (sf counts_example) = Inr adj
         \<and> saver_cor 2 counts_example estimate_example se_example = Inr m
         \<and> adj ! 0 = Some (1 / 2) \<and> adj ! 1 = Some 1
         \<and> m ! 0 ! 0 = Some (1 / 4) \<and> m ! 0 ! 1 = Some (- 1 / 4)
         \<and> m ! 1 ! 0 = Some (- 1 / 4) \<and> m ! 1 ! 1 = Some 1)"
proof -
  have le: "length estimate_example = 2" and ls: "length se_example = 2"
    by (simp_all add: estimate_example_def se_example_def)
  from saver_cor_closed_form [OF le ls, of counts_example] obtain adj m where
    run: "adj_vec 2 estimate_example se_example (sf counts_example) = Inr adj"
      "saver_cor 2 counts_example estimate_example se_example = Inr m"
    and ent: "\<forall>i<2. adj ! i = shrinkage_factor (estimate_example ! i) (se_example ! i) (sf counts_example)
              \<and> length (m ! i) = 2
              \<and> (\<forall>j<2. outer adj adj ! i ! j = r_mul (adj ! i) (adj ! j)
                    \<and> m ! i ! j = r_mul (temp_cor estimate_example (sf counts_example) ! i ! j)
                                        (outer adj adj ! i ! j))"
    by blast
  have a0: "adj ! 0 = Some (1 / 2)" and a1: "adj ! 1 = Some 1"
    using ent shrinkage_factor_example
    by (simp_all add: sf_counts_example estimate_example_def se_example_def)
  have m: "m ! i ! j = r_mul (temp_cor estimate_example (sf counts_example) ! i ! j)
                         (r_mul (adj ! i) (adj ! j))" if "i < 2" "j < 2" for i j
    using ent that by simp
  have "m ! 0 ! 0 = Some (1 / 4)" "m ! 0 ! 1 = Some (- 1 / 4)"
    "m ! 1 ! 0 = Some (- 1 / 4)" "m ! 1 ! 1 = Some 1"
    by (simp_all add: m a0 a1 [simplified] sf_counts_example temp_cor_example r_mul_def)
  with le ls run a0 a1 show ?thesis by blast
qed

text \<open>The notebook itself, written for 12241 genes.\<close>

lemma notebook_saver_cor_entries:
  assumes "length estimate = n_genes" and "length se = n_genes"
  shows "\<exists>m. notebook_saver_cor dropseq_data estimate se = Inr m \<and> length m = n_genes
           \<and> (\<forall>i<n_genes. \<forall>j<n_genes. m ! i ! j =
                 r_mul (temp_cor estimate (sf dropseq_data) ! i ! j)
                   (r_mul (shrinkage_factor (estimate ! i) (se ! i) (sf dropseq_data))
                          (shrinkage_factor (estimate ! j) (se ! j) (sf dropseq_data))))"
  using saver_cor_entries [OF assms, of dropseq_data] unfolding notebook_saver_cor_def by blast

subsection \<open>Symmetry and bounds\<close>

lemma sum_sq_dev_nonneg: "0 \<le> sum_sq_dev xs"
  by (auto simp: sum_sq_dev_def intro!: sum_list_nonneg)

lemma r_var_nonneg: "r_var xs = Some v \<Longrightarrow> 0 \<le> v"
  by (auto simp: r_var_def sum_sq_dev_nonneg split: if_splits)

lemma r_mean_nonneg: "r_mean xs = Some m \<Longrightarrow> \<forall>x\<in>set xs. 0 \<le> x \<Longrightarrow> 0 \<le> m"
  by (auto simp: r_mean_def sum_list_nonneg split: if_splits)

lemma na_rm_set: "set (na_rm xs) = {x. Some x \<in> set xs}"
  by (induction xs rule: na_rm.induct) auto

lemma scaled_sq_nonneg: "x \<in> set (na_rm (vec_mul (vec_sq a) (vec_sq b))) \<Longrightarrow> 0 \<le> x"
  by (auto simp: na_rm_set vec_mul_def vec_sq_def r_mul_def in_set_zip split: option.splits)

text \<open>
  The denominator of the closed form is zero only when the variance is: the quotient is
  then \<open>0/0\<close>, never infinite.
\<close>

lemma r_var_plus_mean_zero:
  assumes "r_var xs = Some v" and "r_mean (na_rm (vec_mul (vec_sq a) (vec_sq b))) = Some m"
    and "v + m = 0"
  shows "v = 0"
proof -
  from assms(1) have "0 \<le> v" by (rule r_var_nonneg)
  moreover from assms(2) have "0 \<le> m"
    by (rule r_mean_nonneg) (blast intro: scaled_sq_nonneg)
  ultimately show ?thesis using assms(3) by simp
qed

lemma na_rm_map_Some: "na_rm (map Some xs) = xs"
  by (induction xs) simp_all

lemma no_None_map_Some: "None \<notin> set xs \<Longrightarrow> xs = map Some (na_rm xs)"
  by (induction xs rule: na_rm.induct) simp_all

lemma vec_mul_Some:
  "vec_mul (map Some xs) (map Some ys) = map Some (map (\<lambda>(x, y). x * y) (zip xs ys))"
  by (simp add: vec_mul_def r_mul_def zip_map_map split_def)

lemma vec_sq_Some: "vec_sq (map Some xs) = map Some (map (\<lambda>x. x * x) xs)"
  by (simp add: vec_sq_def r_mul_def)

lemma vec_mul_no_None:
  assumes "None \<notin> set (vec_mul (map Some xs) sfv)" and "length xs = length sfv"
  shows "None \<notin> set sfv"
proof
  assume "None \<in> set sfv"
  then obtain k where k: "k < length sfv" "sfv ! k = None" by (auto simp: in_set_conv_nth)
  with assms(2) have "vec_mul (map Some xs) sfv ! k = None" "k < length (vec_mul (map Some xs) sfv)"
    by (simp_all add: vec_mul_def r_mul_def)
  then have "None \<in> set (vec_mul (map Some xs) sfv)" by (metis nth_mem)
  with assms(1) show False by contradiction
qed

lemma r_cor_diag_defined:
  assumes "r_cor x x = Some r"
  shows "None \<notin> set x \<and> 2 \<le> length x \<and> sum_sq_dev (na_rm x) \<noteq> 0"
  using assms by (auto simp: r_cor_def Let_def split: if_splits)

text \<open>
  With every size factor a number, at least two cells and scaled estimates that are not
  constant, the closed form is a number: the root of \<open>v / (v + m)\<close> for the sample
  variance \<open>v > 0\<close> and the mean \<open>m \<ge> 0\<close>.
\<close>

lemma shrinkage_factor_value:
  assumes len: "length e = length f" "length s = length f" and two: "2 \<le> length f"
    and ssd: "sum_sq_dev (map (\<lambda>(x, y). x * y) (zip e f)) \<noteq> 0"
  shows "\<exists>v m. v = sum_sq_dev (map (\<lambda>(x, y). x * y) (zip e f)) / real (length f - 1)
           \<and> m = sum_list (map (\<lambda>(x, y). x * y) (zip (map (\<lambda>x. x * x) s) (map (\<lambda>x. x * x) f)))
                   / real (length f)
           \<and> 0 < v \<and> 0 \<le> m
           \<and> shrinkage_factor e s (map Some f) = Some (sqrt (v / (v + m)))"
proof -
  let ?x = "map (\<lambda>(x, y). x * y) (zip e f)"
  let ?y = "map (\<lambda>(x, y). x * y) (zip (map (\<lambda>x. x * x) s) (map (\<lambda>x. x * x) f))"
  define v where "v = sum_sq_dev ?x / real (length f - 1)"
  define m where "m = sum_list ?y / real (length f)"
  have lx: "length ?x = length f" and ly: "length ?y = length f" using len by simp_all
  have x: "na_rm (vec_mul (map Some e) (map Some f)) = ?x"
    by (simp only: vec_mul_Some na_rm_map_Some)
  have y: "na_rm (vec_mul (vec_sq (map Some s)) (vec_sq (map Some f))) = ?y"
    by (simp only: vec_sq_Some vec_mul_Some na_rm_map_Some)
  have "\<not> length ?x < 2" using two lx by simp
  then have v: "r_var (na_rm (vec_mul (map Some e) (map Some f))) = Some v"
    unfolding x r_var_def v_def lx by (simp only: if_False)
  have "?y \<noteq> []" using two ly by auto
  then have m: "r_mean (na_rm (vec_mul (vec_sq (map Some s)) (vec_sq (map Some f)))) = Some m"
    unfolding y r_mean_def m_def ly by (simp only: if_False)
  have "0 < sum_sq_dev ?x" using ssd sum_sq_dev_nonneg [of ?x] by simp
  moreover have "0 < real (length f - 1)" using two by simp
  ultimately have vpos: "0 < v" unfolding v_def by (rule divide_pos_pos)
  have "0 \<le> y" if "y \<in> set ?y" for y using that by (auto simp: in_set_zip)
  then have "0 \<le> sum_list ?y" by (rule sum_list_nonneg)
  then have mnn: "0 \<le> m" unfolding m_def by (rule divide_nonneg_nonneg) simp
  from vpos mnn have pos: "0 < v + m" by simp
  have "0 \<le> v / (v + m)" using pos vpos by simp
  then have "\<not> v / (v + m) < 0" by simp
  moreover have "v + m \<noteq> 0" using pos by simp
  ultimately have "shrinkage_factor e s (map Some f) = Some (sqrt (v / (v + m)))"
    by (simp add: shrinkage_factor_def v m r_add_def r_div_def r_sqrt_def Let_def)
  with vpos mnn show ?thesis unfolding v_def m_def by blast
qed

lemma shrinkage_factor_range:
  assumes "length e = length f" "length s = length f" and "2 \<le> length f"
    and "sum_sq_dev (map (\<lambda>(x, y). x * y) (zip e f)) \<noteq> 0"
  shows "\<exists>a. shrinkage_factor e s (map Some f) = Some a \<and> 0 \<le> a \<and> a \<le> 1"
proof -
  from shrinkage_factor_value [OF assms] obtain v m :: real where
    vpos: "0 < v" and mnn: "0 \<le> m"
    and sh: "shrinkage_factor e s (map Some f) = Some (sqrt (v / (v + m)))"
    by blast
  from vpos mnn have pos: "0 < v + m" by simp
  have "0 \<le> v / (v + m)" using pos vpos by simp
  moreover have "v / (v + m) \<le> 1" using pos mnn by simp
  ultimately have "0 \<le> sqrt (v / (v + m)) \<and> sqrt (v / (v + m)) \<le> 1" by simp
  with sh show ?thesis by blast
qed

lemma unit_product_range:
  fixes r a b :: real
  assumes "- 1 \<le> r" "r \<le> 1" "0 \<le> a" "a \<le> 1" "0 \<le> b" "b \<le> 1"
  shows "- 1 \<le> r * (a * b) \<and> r * (a * b) \<le> 1"
proof -
  have ab: "0 \<le> a * b" "a * b \<le> 1" using assms by (simp_all add: mult_le_one)
  from \<open>r \<le> 1\<close> ab(1) have "r * (a * b) \<le> 1 * (a * b)" by (rule mult_right_mono)
  with ab(2) have upper: "r * (a * b) \<le> 1" by simp
  from \<open>- 1 \<le> r\<close> ab(1) have "- 1 * (a * b) \<le> r * (a * b)" by (rule mult_right_mono)
  with ab(2) have lower: "- 1 \<le> r * (a * b)" by simp
  from lower upper show ?thesis by simp
qed

lemma length_sf: "length (sf d) = length (colSums d)"
  by (simp add: sf_def)

lemma cor_matrix_ok_iff:
  "cor_matrix_ok n m \<longleftrightarrow>
     (\<forall>i<n. \<forall>j<n. in_unit_range (m ! i ! j) \<and> m ! i ! j = m ! j ! i)"
  by (auto simp: cor_matrix_ok_def list_all_iff)

lemma shrinkage_factor_of_valid_row:
  assumes diag: "r_cor (vec_mul (map Some e) sfv) (vec_mul (map Some e) sfv) = Some r"
    and len: "length e = length sfv" "length s = length sfv"
  shows "\<exists>a. shrinkage_factor e s sfv = Some a \<and> 0 \<le> a \<and> a \<le> 1"
proof -
  let ?x = "vec_mul (map Some e) sfv"
  from r_cor_diag_defined [OF diag] have nn: "None \<notin> set ?x" and two: "2 \<le> length ?x"
    and ssd: "sum_sq_dev (na_rm ?x) \<noteq> 0"
    by simp_all
  from nn len(1) have "None \<notin> set sfv" by (rule vec_mul_no_None)
  then have sfv: "sfv = map Some (na_rm sfv)" by (rule no_None_map_Some)
  define f where "f = na_rm sfv"
  from sfv have sf: "sfv = map Some f" by (simp add: f_def)
  from len sf have lf: "length e = length f" "length s = length f" by simp_all
  have "length ?x = length f" using lf by (simp add: vec_mul_def sf)
  with two have two': "2 \<le> length f" by simp
  have "na_rm ?x = map (\<lambda>(x, y). x * y) (zip e f)"
    unfolding sf by (simp only: vec_mul_Some na_rm_map_Some)
  with ssd have "sum_sq_dev (map (\<lambda>(x, y). x * y) (zip e f)) \<noteq> 0" by simp
  from shrinkage_factor_range [OF lf two' this] show ?thesis by (simp only: sf)
qed

text \<open>
  Claim C4. On inputs of matching shapes for which the correlation matrix \<^verbatim>\<open>temp.cor\<close>
  is valid (every entry a number in \<open>[-1, 1]\<close>, symmetric), the notebook returns a
  matrix of numbers in \<open>[-1, 1]\<close> that is symmetric. A number on the diagonal of
  \<^verbatim>\<open>temp.cor\<close> means that the scaled estimates of the gene have no missing value and a
  positive variance, which makes the adjustment of the gene a number in \<open>[0, 1]\<close>; the
  variance and the mean of squares are never negative.
\<close>

theorem saver_cor_symmetric_bounded:
  assumes shapes: "saver_shapes n dropseq_data estimate se"
    and valid: "cor_matrix_ok n (temp_cor estimate (sf dropseq_data))"
  shows "\<exists>m. saver_cor n dropseq_data estimate se = Inr m \<and> cor_matrix_ok n m"
proof -
  let ?sf = "sf dropseq_data"
  let ?T = "temp_cor estimate ?sf"
  let ?a = "\<lambda>i. shrinkage_factor (estimate ! i) (se ! i) ?sf"
  from shapes have le: "length estimate = n" and ls: "length se = n"
    and rows: "\<And>i. i < n \<Longrightarrow> length (estimate ! i) = length ?sf"
      "\<And>i. i < n \<Longrightarrow> length (se ! i) = length ?sf"
    by (simp_all add: saver_shapes_def list_all_length length_sf)
  from valid have T: "\<And>i j. i < n \<Longrightarrow> j < n \<Longrightarrow> in_unit_range (?T ! i ! j)"
    and sym: "\<And>i j. i < n \<Longrightarrow> j < n \<Longrightarrow> ?T ! i ! j = ?T ! j ! i"
    by (simp_all add: cor_matrix_ok_iff)
  from saver_cor_entries [OF le ls, of dropseq_data] obtain m where
    run: "saver_cor n dropseq_data estimate se = Inr m"
    and ent: "\<And>i j. i < n \<Longrightarrow> j < n \<Longrightarrow> m ! i ! j = r_mul (?T ! i ! j) (r_mul (?a i) (?a j))"
    by blast
  have adj: "\<exists>a. ?a i = Some a \<and> 0 \<le> a \<and> a \<le> 1" if i: "i < n" for i
  proof -
    from T [OF i i] obtain r where "?T ! i ! i = Some r"
      by (auto simp: in_unit_range_def split: option.splits)
    then have "r_cor (vec_mul (map Some (estimate ! i)) ?sf) (vec_mul (map Some (estimate ! i)) ?sf) = Some r"
      using i le by (simp add: temp_cor_entry)
    from shrinkage_factor_of_valid_row [OF this rows(1) [OF i] rows(2) [OF i]]
    show ?thesis .
  qed
  have entry: "in_unit_range (m ! i ! j) \<and> m ! i ! j = m ! j ! i" if i: "i < n" and j: "j < n" for i j
  proof -
    from adj [OF i] obtain a where a: "?a i = Some a" "0 \<le> a" "a \<le> 1" by blast
    from adj [OF j] obtain b where b: "?a j = Some b" "0 \<le> b" "b \<le> 1" by blast
    from T [OF i j] obtain r where r: "?T ! i ! j = Some r" "- 1 \<le> r" "r \<le> 1"
      by (auto simp: in_unit_range_def split: option.splits)
    have mij: "m ! i ! j = Some (r * (a * b))"
      by (simp add: ent [OF i j] r(1) a(1) b(1) r_mul_def)
    have "m ! j ! i = Some (r * (b * a))"
      by (simp add: ent [OF j i] sym [OF j i] r(1) a(1) b(1) r_mul_def)
    then have mji: "m ! j ! i = Some (r * (a * b))" by (simp add: mult.commute)
    from unit_product_range [OF r(2,3) a(2,3) b(2,3)]
    have "in_unit_range (Some (r * (a * b)))" by (simp add: in_unit_range_def)
    with mij mji show ?thesis by simp
  qed
  then have "cor_matrix_ok n m" by (simp add: cor_matrix_ok_iff)
  with run show ?thesis by blast
qed

lemma adj_vec_example:
  "adj_vec 2 estimate_example se_example [Some 1, Some 1, Some 1] = Inr [Some (1 / 2), Some 1]"
proof -
  have "adj_vec 2 estimate_example se_example [Some 1, Some 1, Some 1]
          = Inr (map (\<lambda>i. shrinkage_factor (estimate_example ! i) (se_example ! i)
                        [Some 1, Some 1, Some 1]) [0..<2])"
    by (rule adj_vec_closed_form) (simp_all add: estimate_example_def se_example_def)
  also have "[0..<2] = [0, Suc 0]" by (simp add: upt_rec)
  finally show ?thesis
    using shrinkage_factor_example by (simp add: estimate_example_def se_example_def)
qed

lemma saver_cor_example:
  "saver_cor 2 counts_example estimate_example se_example
     = Inr [[Some (1 / 4), Some (- 1 / 4)], [Some (- 1 / 4), Some 1]]"
  by (simp add: saver_cor_def sf_counts_example adj_vec_example temp_cor_example outer_def
      mat_mul_elem_def conformable_def vec_mul_def r_mul_def)

theorem saver_cor_symmetric_bounded_witness:
  "saver_shapes 2 counts_example estimate_example se_example
   \<and> cor_matrix_ok 2 (temp_cor estimate_example (sf counts_example))
   \<and> saver_cor 2 counts_example estimate_example se_example
       = Inr [[Some (1 / 4), Some (- 1 / 4)], [Some (- 1 / 4), Some 1]]
   \<and> cor_matrix_ok 2 [[Some (1 / 4), Some (- 1 / 4)], [Some (- 1 / 4), Some 1]]"
proof -
  have cs: "colSums counts_example = [2, 2, 2]"
    by (simp add: colSums_def counts_example_def upt_rec)
  have shapes: "saver_shapes 2 counts_example estimate_example se_example"
    by (simp add: saver_shapes_def cs estimate_example_def se_example_def)
  have "[0..<2] = [0, Suc 0]" by (simp add: upt_rec)
  then have valid: "cor_matrix_ok 2 (temp_cor estimate_example (sf counts_example))"
    by (simp add: cor_matrix_ok_def sf_counts_example temp_cor_example in_unit_range_def)
  from saver_cor_symmetric_bounded [OF shapes valid] obtain m where
    "saver_cor 2 counts_example estimate_example se_example = Inr m" and "cor_matrix_ok 2 m"
    by blast
  with saver_cor_example
  have "cor_matrix_ok 2 [[Some (1 / 4), Some (- 1 / 4)], [Some (- 1 / 4), Some 1]]"
    by simp
  with shapes valid saver_cor_example show ?thesis by blast
qed

end
